theory Spec2Isabelle
  imports
    Complex_Main
    "HOL-Library.Char_ord"
    "HOL-Library.List_Lexorder"
    "HOL-Library.AList"
    "HOL-Library.Sublist"
begin

section \<open>Python strings and integers\<close>

text \<open>
  The subcommand \<^verbatim>\<open>build_marker_genes\<close> works on genome ids, species ids, paths and
  shell command lines, all Python \<^verbatim>\<open>str\<close>. They are modelled as \<open>string\<close>; the ids,
  selection expressions and paths of the pipeline are ASCII, and a character stands for
  its code point. With \<open>Char_ord\<close> and \<open>List_Lexorder\<close> the order on \<open>string\<close> is the
  lexicographic order by code point, which is the order of Python's \<^verbatim>\<open>sorted\<close> on
  strings. Python's \<^verbatim>\<open>int\<close> is unbounded and is modelled as \<open>int\<close>; its \<^verbatim>\<open>%\<close> with a
  positive modulus is \<open>mod\<close>.
\<close>

text \<open>\<^verbatim>\<open>s.upper()\<close> on ASCII text: the 26 lower-case letters are mapped, all else is kept.\<close>

definition char_upper :: "char \<Rightarrow> char" where
  "char_upper c =
     (case map_of (zip ''abcdefghijklmnopqrstuvwxyz'' ''ABCDEFGHIJKLMNOPQRSTUVWXYZ'') c of
        Some u \<Rightarrow> u
      | None \<Rightarrow> c)"

definition upper :: "string \<Rightarrow> string" where
  "upper s = map char_upper s"

text \<open>
  \<^verbatim>\<open>s.split(sep)\<close> for a separator of one character: the pieces between the
  separators, always at least one piece.
\<close>

fun split :: "char \<Rightarrow> string \<Rightarrow> string list" where
  "split sep [] = [[]]"
| "split sep (c # cs) =
     (if c = sep then [] # split sep cs
      else (case split sep cs of
              [] \<Rightarrow> [[c]]
            | p # ps \<Rightarrow> (c # p) # ps))"

text \<open>
  \<^verbatim>\<open>s.replace(old, new)\<close> for a non-empty \<open>old\<close>: one scan from the left that
  replaces each occurrence it meets and resumes after it.
\<close>

function replace :: "string \<Rightarrow> string \<Rightarrow> string \<Rightarrow> string" where
  "replace old new [] = []"
| "replace old new (c # cs) =
     (if old \<noteq> [] \<and> prefix old (c # cs)
      then new @ replace old new (drop (length old) (c # cs))
      else c # replace old new cs)"
  by pat_completeness auto
termination
  by (relation "measure (\<lambda>(old, new, s). length s)") (auto simp: neq_Nil_conv)

text \<open>\<^verbatim>\<open>sep.join(xs)\<close>.\<close>

fun join :: "string \<Rightarrow> string list \<Rightarrow> string" where
  "join sep [] = []"
| "join sep [x] = x"
| "join sep (x # y # ys) = x @ sep @ join sep (y # ys)"

text \<open>
  \<^verbatim>\<open>int(s)\<close> on a string, base ten: white space around the literal is dropped, one
  sign may lead, and the digits may be grouped by single underscores between digits.
  \<open>None\<close> stands for \<^verbatim>\<open>ValueError\<close>.
\<close>

definition is_space :: "char \<Rightarrow> bool" where
  "is_space c = (c \<in> set [CHR '' '', CHR 0x09, CHR 0x0A, CHR 0x0B, CHR 0x0C, CHR 0x0D])"

definition strip :: "string \<Rightarrow> string" where
  "strip s = rev (dropWhile is_space (rev (dropWhile is_space s)))"

definition digit_of :: "char \<Rightarrow> int option" where
  "digit_of c = map_of (zip ''0123456789'' [0, 1, 2, 3, 4, 5, 6, 7, 8, 9]) c"

fun py_digits :: "int \<Rightarrow> string \<Rightarrow> int option" where
  "py_digits acc [] = Some acc"
| "py_digits acc (c # cs) =
     (case digit_of c of
        Some d \<Rightarrow> py_digits (acc * 10 + d) cs
      | None \<Rightarrow>
          (if c = CHR ''_'' then
             (case cs of
                [] \<Rightarrow> None
              | c' # cs' \<Rightarrow>
                  (case digit_of c' of
                     Some d \<Rightarrow> py_digits (acc * 10 + d) cs'
                   | None \<Rightarrow> None))
           else None))"

definition py_literal :: "string \<Rightarrow> int option" where
  "py_literal s =
     (case s of
        [] \<Rightarrow> None
      | c # cs \<Rightarrow> (case digit_of c of Some d \<Rightarrow> py_digits d cs | None \<Rightarrow> None))"

definition py_int :: "string \<Rightarrow> int option" where
  "py_int s =
     (case strip s of
        [] \<Rightarrow> None
      | c # cs \<Rightarrow>
          (if c = CHR ''-'' then map_option uminus (py_literal cs)
           else if c = CHR ''+'' then py_literal cs
           else py_literal (c # cs)))"

text \<open>\<^verbatim>\<open>str(n)\<close> for a non-negative integer: its decimal digits, no sign, no padding.\<close>

definition digit_char :: "nat \<Rightarrow> char" where
  "digit_char d = ''0123456789'' ! d"

fun str_nat :: "nat \<Rightarrow> string" where
  "str_nat n = (if n < 10 then [digit_char n] else str_nat (n div 10) @ [digit_char (n mod 10)])"

declare str_nat.simps [simp del]

section \<open>Work-item resolution\<close>

datatype exn =
    ValueError
  | AssertionError
  | KeyError
  | TypeError
  | UnboundLocalError
  | IOError
  | CommandError
  | UploadError
  | DownloadError
  | ParseError

text \<open>
  \<^verbatim>\<open>gid_int = int(gid.replace("GUT_GENOME", ""))\<close>, the integer of a genome id.
\<close>

definition gid_int :: "string \<Rightarrow> int option" where
  "gid_int gid = py_int (replace ''GUT_GENOME'' [] gid)"

text \<open>
  The loop \<^verbatim>\<open>for gid in genomes\<close> of a slice token, over the keys of the catalog in
  their order; \<open>sel\<close> is \<^verbatim>\<open>selected_genomes\<close>.
\<close>

fun slice_loop :: "int \<Rightarrow> int \<Rightarrow> string set \<Rightarrow> string list \<Rightarrow> exn + string set" where
  "slice_loop i n sel [] = Inr sel"
| "slice_loop i n sel (gid # gids) =
     (case gid_int gid of
        None \<Rightarrow> Inl ValueError
      | Some k \<Rightarrow> slice_loop i n (if k mod n = i then insert gid sel else sel) gids)"

text \<open>The body of \<^verbatim>\<open>for g in args.genomes.split(",")\<close> for one token \<open>g\<close>.\<close>

definition decode_token :: "string list \<Rightarrow> string set \<Rightarrow> string \<Rightarrow> exn + string set" where
  "decode_token genomes sel g =
     (if CHR '':'' \<notin> set g then Inr (insert g sel)
      else
        (case split (CHR '':'') g of
           [a, b] \<Rightarrow>
             (case py_int a of
                None \<Rightarrow> Inl ValueError
              | Some i \<Rightarrow>
                  (case py_int b of
                     None \<Rightarrow> Inl ValueError
                   | Some n \<Rightarrow>
                       (if 0 \<le> i \<and> i < n then slice_loop i n sel genomes
                        else Inl AssertionError)))
         | _ \<Rightarrow> Inl ValueError))"

text \<open>
  The loop over the tokens. An exception leaves the loop with \<open>g\<close> bound to the token
  at hand, which the handler prints: the result \<open>Inl (e, g)\<close> keeps both.
\<close>

fun decode_tokens :: "string list \<Rightarrow> string set \<Rightarrow> string list \<Rightarrow> (exn \<times> string) + string set" where
  "decode_tokens genomes sel [] = Inr sel"
| "decode_tokens genomes sel (g # gs) =
     (case decode_token genomes sel g of
        Inl e \<Rightarrow> Inl (e, g)
      | Inr sel' \<Rightarrow> decode_tokens genomes sel' gs)"

text \<open>The \<^verbatim>\<open>try\<close> block of \<^verbatim>\<open>decode_genomes_arg\<close>: the selected set, or the exception.\<close>

definition select_genomes :: "string \<Rightarrow> string list \<Rightarrow> (exn \<times> string) + string set" where
  "select_genomes expr genomes =
     (if upper expr = ''ALL'' then Inr (set genomes)
      else decode_tokens genomes {} (split (CHR '','') expr))"

section \<open>Hit selection\<close>

text \<open>
  A row of the search report as \<^verbatim>\<open>parse_hmmsearch\<close> yields it, a dictionary with the
  keys below. The e-value and the two coverages are Python floats. \<^verbatim>\<open>find_hits\<close> only
  compares them, with \<^verbatim>\<open><\<close>, \<^verbatim>\<open>>\<close> and \<^verbatim>\<open>min\<close>; floats other than NaN are totally
  ordered by these comparisons, so their type is a parameter \<open>'v\<close> of the class
  \<open>linorder\<close>, and NaN stays outside the model.
\<close>

record 'v hit =
  query :: string
  target :: string
  evalue :: 'v
  qcov :: 'v
  tcov :: 'v
  qlen :: int
  tlen :: int

text \<open>Python's \<^verbatim>\<open>min(a, b)\<close>: \<open>b\<close> when \<open>b < a\<close>, else \<open>a\<close>.\<close>

definition py_min :: "'v::linorder \<Rightarrow> 'v \<Rightarrow> 'v" where
  "py_min a b = (if b < a then b else a)"

text \<open>
  One round of the loop of \<^verbatim>\<open>find_hits\<close>. The dictionary \<^verbatim>\<open>hits\<close> keeps its keys in
  the order of their first insertion and an assignment to a key it holds replaces the
  value in place: an association list under \<open>AList.update\<close>.
\<close>

definition find_hits_step ::
  "'v::linorder \<Rightarrow> 'v \<Rightarrow> (string \<times> 'v hit) list \<Rightarrow> 'v hit \<Rightarrow> (string \<times> 'v hit) list" where
  "find_hits_step max_evalue min_cov hits r =
     (if evalue r > max_evalue then hits
      else if py_min (qcov r) (tcov r) < min_cov then hits
      else
        (case map_of hits (target r) of
           None \<Rightarrow> AList.update (target r) r hits
         | Some h \<Rightarrow>
             (if evalue r < evalue h then AList.update (target r) r hits else hits)))"

text \<open>
  \<^verbatim>\<open>find_hits\<close>, on the rows that \<^verbatim>\<open>parse_hmmsearch\<close> yields for the report file and
  with the thresholds \<^verbatim>\<open>inputs.hmmsearch_max_evalue\<close> and \<^verbatim>\<open>inputs.hmmsearch_min_cov\<close>
  as parameters; the result is \<^verbatim>\<open>list(hits.values())\<close>.
\<close>

definition find_hits :: "'v::linorder \<Rightarrow> 'v \<Rightarrow> 'v hit list \<Rightarrow> 'v hit list" where
  "find_hits max_evalue min_cov rows =
     map snd (foldl (find_hits_step max_evalue min_cov) [] rows)"

section \<open>The pipeline and its environment\<close>

text \<open>
  The subcommand acts through helpers of \<^verbatim>\<open>iggtools.common.utils\<close>, constants of
  \<^verbatim>\<open>iggtools.params\<close> and the catalog class \<^verbatim>\<open>UHGG\<close>, none of them among the sources at
  hand. The constants are the fields of \<open>params\<close>. The helpers are given the meaning their
  names, their call sites and the specification give them, over an explicit \<open>world\<close>:
  the files that exist (remote objects and local files alike, by path, with their
  content), the local directories, and the trace of every call that leaves the process,
  in order. What the outside decides (whether a remote operation or an external program
  succeeds, what the search tool writes, what a child process does, in which order a
  thread pool runs its tasks) is the oracle \<open>env\<close>; a theorem that quantifies over \<open>env\<close>
  holds however the outside behaves. Paths and ids are taken to hold no character that
  the shell treats specially, so that a command line means what its words say.
\<close>

datatype event =
    Tsprint string
  | Command string bool
  | Upload string string bool
  | Download string bool
  | FindFiles string bool
  | Fetch string bool

record world =
  files :: "string \<rightharpoonup> string"
  dirs :: "string set"
  trace :: "event list"

record params =
  outputs_annotations :: string
  outputs_marker_genes :: string
  outputs_genomes :: string
  inputs_marker_genes_hmm :: string
  inputs_hmmsearch_max_evalue :: real
  inputs_hmmsearch_min_cov :: real

text \<open>
  The parsed command line. An option that was not given is \<open>None\<close>, as argparse leaves it.
\<close>

record args =
  args_genomes :: "string option"
  args_force :: bool
  args_debug :: bool
  args_zzz_slave_mode :: bool
  args_zzz_slave_toc :: "string option"
  args_zzz_slave_marker_genes_hmm :: "string option"

text \<open>
  The oracle. \<open>succeeds env k\<close> tells whether the call that becomes event number \<open>k\<close> of
  the trace succeeds, when its success is for the outside to decide; \<open>sched\<close> steers the
  order in which a pool runs its tasks; \<open>local_copy\<close> names the local file that
  \<^verbatim>\<open>download_reference\<close> leaves; \<open>tool_report\<close> and \<open>tool_partial\<close> are what the search
  tool writes at its output path when it succeeds and what it leaves there when it fails
  (by command line); \<open>child_run\<close> is what a child process does to the files;
  \<open>hmmsearch_rows\<close> is the list of rows that \<^verbatim>\<open>parse_hmmsearch\<close> yields for the content of
  a report (\<open>None\<close> when it raises; it parses and divides floats, which is left to the
  oracle); \<open>fasta_records\<close> the (id, sequence) pairs that \<^verbatim>\<open>Bio.SeqIO.parse\<close> reads;
  \<open>uhgg_genomes\<close> the dictionary \<^verbatim>\<open>UHGG(toc).genomes\<close> as the list of its items, keys in
  iteration order; \<open>abspath\<close>, \<open>pythonpath\<close> and \<open>executable\<close> are \<^verbatim>\<open>os.path.abspath\<close>,
  \<^verbatim>\<open>pythonpath()\<close> and \<^verbatim>\<open>sys.executable\<close>.
\<close>

record env =
  succeeds :: "nat \<Rightarrow> bool"
  sched :: "nat \<Rightarrow> nat"
  local_copy :: "string \<Rightarrow> string"
  tool_report :: "string \<Rightarrow> string"
  tool_partial :: "string \<Rightarrow> string option"
  child_run :: "string \<Rightarrow> world \<Rightarrow> world"
  hmmsearch_rows :: "string \<Rightarrow> real hit list option"
  fasta_records :: "string \<Rightarrow> (string \<times> string) list option"
  uhgg_genomes :: "string \<Rightarrow> (string \<times> string) list"
  abspath :: "string \<Rightarrow> string"
  pythonpath :: string
  executable :: string

text \<open>
  A step of the program: from a world to a result or an exception, and the world it
  leaves. What a step did before it raised stays done.
\<close>

type_synonym 'a run = "world \<Rightarrow> (exn + 'a) \<times> world"

definition seq :: "'a run \<Rightarrow> ('a \<Rightarrow> 'b run) \<Rightarrow> 'b run" where
  "seq m f w = (case m w of (Inl e, w') \<Rightarrow> (Inl e, w') | (Inr x, w') \<Rightarrow> f x w')"

subsection \<open>Paths\<close>

definition input_annotations_file :: "params \<Rightarrow> string \<Rightarrow> string \<Rightarrow> string \<Rightarrow> string" where
  "input_annotations_file P genome_id species_id filename =
     outputs_annotations P @ ''/'' @ species_id @ ''/'' @ genome_id @ ''/'' @ filename"

definition output_marker_genes_file :: "params \<Rightarrow> string \<Rightarrow> string \<Rightarrow> string \<Rightarrow> string" where
  "output_marker_genes_file P genome_id species_id filename =
     outputs_marker_genes P @ ''/temp/'' @ species_id @ ''/'' @ genome_id @ ''/'' @ filename"

definition lastoutput :: "string \<Rightarrow> string" where
  "lastoutput genome_id = genome_id @ ''.markers.map''"

definition destpath :: "params \<Rightarrow> string \<Rightarrow> string \<Rightarrow> string \<Rightarrow> string" where
  "destpath P genome_id species_id src =
     output_marker_genes_file P genome_id species_id (src @ ''.lz4'')"

subsection \<open>The helpers of \<^verbatim>\<open>iggtools.common.utils\<close>\<close>

text \<open>Modelled from the spec: \<^verbatim>\<open>tsprint\<close>, absent from the sources, prints a note.\<close>

definition tsprint :: "string \<Rightarrow> world \<Rightarrow> world" where
  "tsprint msg w = w\<lparr>trace := trace w @ [Tsprint msg]\<rparr>"

text \<open>
  Modelled from the spec: \<^verbatim>\<open>find_files\<close>, absent from the sources, answers "does this
  output already exist", for a local file as for a remote object. The decorator
  \<^verbatim>\<open>@retry\<close> repeats a call that failed a bounded number of times; one event stands for
  the call with its repetitions.
\<close>

definition find_files :: "string \<Rightarrow> world \<Rightarrow> bool \<times> world" where
  "find_files f w =
     (files w f \<noteq> None, w\<lparr>trace := trace w @ [FindFiles f (files w f \<noteq> None)]\<rparr>)"

text \<open>\<^verbatim>\<open>find_files_with_retry\<close>, as in the source: \<^verbatim>\<open>find_files\<close> under \<^verbatim>\<open>@retry\<close>.\<close>

definition find_files_with_retry :: "string \<Rightarrow> world \<Rightarrow> bool \<times> world" where
  "find_files_with_retry f w = find_files f w"

text \<open>
  Modelled from the spec: \<^verbatim>\<open>command(cmd, check=True)\<close>, absent from the sources, runs a
  shell command and raises when it fails, unless \<^verbatim>\<open>check=False\<close>. \<open>sem\<close> is what the
  command does to the world and whether it succeeds.
\<close>

definition command :: "bool \<Rightarrow> string \<Rightarrow> (world \<Rightarrow> bool \<times> world) \<Rightarrow> unit run" where
  "command check cmd sem w =
     (case sem w of
        (fine, w') \<Rightarrow>
          (if check \<and> \<not> fine then Inl CommandError else Inr (),
           w'\<lparr>trace := trace w @ [Command cmd fine]\<rparr>))"

text \<open>
  The commands the program issues. The file utilities act on the local files as their
  manuals say: \<^verbatim>\<open>rm -rf d\<close> removes \<open>d\<close> and all below it and succeeds; \<^verbatim>\<open>mkdir d\<close> fails when
  \<open>d\<close> exists; \<^verbatim>\<open>mv a b\<close> renames the file \<open>a\<close> and fails when there is none.
\<close>

definition sh_rm_rf :: "string \<Rightarrow> world \<Rightarrow> bool \<times> world" where
  "sh_rm_rf d w =
     (True,
      w\<lparr>files := (\<lambda>p. if p = d \<or> prefix (d @ ''/'') p then None else files w p),
        dirs := {p \<in> dirs w. \<not> (p = d \<or> prefix (d @ ''/'') p)}\<rparr>)"

definition sh_mkdir :: "string \<Rightarrow> world \<Rightarrow> bool \<times> world" where
  "sh_mkdir d w =
     (if d \<in> dirs w \<or> files w d \<noteq> None then (False, w)
      else (True, w\<lparr>dirs := insert d (dirs w)\<rparr>))"

definition sh_mv :: "string \<Rightarrow> string \<Rightarrow> world \<Rightarrow> bool \<times> world" where
  "sh_mv a b w =
     (case files w a of
        None \<Rightarrow> (False, w)
      | Some c \<Rightarrow> (True, w\<lparr>files := (files w)(a := None, b \<mapsto> c)\<rparr>))"

text \<open>\<^verbatim>\<open>aws s3 rm --recursive prefix\<close>: removes every object below the prefix, or fails.\<close>

definition aws_s3_rm :: "env \<Rightarrow> string \<Rightarrow> world \<Rightarrow> bool \<times> world" where
  "aws_s3_rm env pfx w =
     (if succeeds env (length (trace w))
      then (True, w\<lparr>files := (\<lambda>p. if prefix pfx p then None else files w p)\<rparr>)
      else (False, w))"

text \<open>
  The external search tool, run as \<open>cmd\<close> on the model file \<open>hmm\<close> and the sequence file
  \<open>seqs\<close>, writing its report to \<open>out\<close>. When it fails it may leave a partial report.
\<close>

definition run_hmmsearch :: "env \<Rightarrow> string \<Rightarrow> string \<Rightarrow> string \<Rightarrow> string \<Rightarrow> world \<Rightarrow> bool \<times> world" where
  "run_hmmsearch env cmd out hmm seqs w =
     (if succeeds env (length (trace w)) \<and> files w hmm \<noteq> None \<and> files w seqs \<noteq> None
      then (True, w\<lparr>files := (files w)(out \<mapsto> tool_report env cmd)\<rparr>)
      else
        (case tool_partial env cmd of
           None \<Rightarrow> (False, w)
         | Some c \<Rightarrow> (False, w\<lparr>files := (files w)(out \<mapsto> c)\<rparr>)))"

text \<open>The child process that the master starts for one genome.\<close>

definition run_child :: "env \<Rightarrow> string \<Rightarrow> world \<Rightarrow> bool \<times> world" where
  "run_child env cmd w = (succeeds env (length (trace w)), child_run env cmd w)"

text \<open>
  Modelled from the spec: \<^verbatim>\<open>upload(src, dst, check=True)\<close>, absent from the sources,
  stores the local file \<open>src\<close> as the remote object \<open>dst\<close> and raises when that fails,
  unless \<^verbatim>\<open>check=False\<close>; \<^verbatim>\<open>upload_star\<close> takes the pair (src, dst) as one argument.
  The content of a file stands for its payload, compressed or not.
\<close>

definition upload :: "env \<Rightarrow> bool \<Rightarrow> string \<Rightarrow> string \<Rightarrow> unit run" where
  "upload env check src dst w =
     (case files w src of
        Some c \<Rightarrow>
          (if succeeds env (length (trace w))
           then (Inr (), w\<lparr>files := (files w)(dst \<mapsto> c), trace := trace w @ [Upload src dst True]\<rparr>)
           else (if check then Inl UploadError else Inr (),
                 w\<lparr>trace := trace w @ [Upload src dst False]\<rparr>))
      | None \<Rightarrow>
          (if check then Inl UploadError else Inr (),
           w\<lparr>trace := trace w @ [Upload src dst False]\<rparr>))"

definition upload_star :: "env \<Rightarrow> string \<times> string \<Rightarrow> unit run" where
  "upload_star env task w = upload env True (fst task) (snd task) w"

text \<open>
  Modelled from the spec: \<^verbatim>\<open>download_reference(path)\<close>, absent from the sources, fetches
  a remote object into the working directory and returns the path of the local copy.
\<close>

definition download_reference :: "env \<Rightarrow> string \<Rightarrow> string run" where
  "download_reference env p w =
     (case files w p of
        Some c \<Rightarrow>
          (if succeeds env (length (trace w))
           then (Inr (local_copy env p),
                 w\<lparr>files := (files w)(local_copy env p \<mapsto> c), trace := trace w @ [Download p True]\<rparr>)
           else (Inl DownloadError, w\<lparr>trace := trace w @ [Download p False]\<rparr>))
      | None \<Rightarrow> (Inl DownloadError, w\<lparr>trace := trace w @ [Download p False]\<rparr>))"

text \<open>
  Modelled from the spec: \<^verbatim>\<open>multithreading_map(func, items)\<close>, absent from the sources,
  runs \<open>func\<close> on every item in a pool of threads and returns the results in the order of
  the items once all tasks have ended (the master unpacks the two results of its first
  call in that order); when a task raised, the first exception is raised after all tasks
  have ended. Items do not wait for one another, so the order in which the tasks run is
  not fixed: \<open>arrange\<close> builds it by inserting the items, last first, at places the
  oracle picks, which reaches every order. Each task is run as a whole.
\<close>

fun insert_at :: "nat \<Rightarrow> 'a \<Rightarrow> 'a list \<Rightarrow> 'a list" where
  "insert_at 0 x ys = x # ys"
| "insert_at (Suc k) x [] = [x]"
| "insert_at (Suc k) x (y # ys) = y # insert_at k x ys"

fun arrange :: "(nat \<Rightarrow> nat) \<Rightarrow> 'a list \<Rightarrow> 'a list" where
  "arrange pick [] = []"
| "arrange pick (x # xs) = insert_at (pick (length xs)) x (arrange pick xs)"

fun run_tasks :: "('a \<Rightarrow> 'b run) \<Rightarrow> (nat \<times> 'a) list \<Rightarrow> world \<Rightarrow> (nat \<times> (exn + 'b)) list \<times> world" where
  "run_tasks f [] w = ([], w)"
| "run_tasks f ((k, x) # xs) w =
     (case f x w of
        (r, w') \<Rightarrow> (case run_tasks f xs w' of (rs, w'') \<Rightarrow> ((k, r) # rs, w'')))"

fun raised :: "(nat \<times> (exn + 'b)) list \<Rightarrow> exn list" where
  "raised [] = []"
| "raised ((k, Inl e) # rs) = e # raised rs"
| "raised ((k, Inr v) # rs) = raised rs"

fun returned :: "(nat \<times> (exn + 'b)) list \<Rightarrow> 'b list" where
  "returned [] = []"
| "returned ((k, Inl e) # rs) = returned rs"
| "returned ((k, Inr v) # rs) = v # returned rs"

definition multithreading_map :: "env \<Rightarrow> ('a \<Rightarrow> 'b run) \<Rightarrow> 'a list \<Rightarrow> 'b list run" where
  "multithreading_map env f items w =
     (case run_tasks f (arrange (sched env) (enumerate 0 items)) w of
        (rs, w') \<Rightarrow>
          (case raised rs of
             e # es \<Rightarrow> (Inl e, w')
           | [] \<Rightarrow> (Inr (returned (sort_key fst rs)), w')))"

section \<open>The subcommand \<^verbatim>\<open>build_marker_genes\<close>\<close>

subsection \<open>The worker\<close>

text \<open>The command line of the search tool, as \<^verbatim>\<open>hmmsearch\<close> formats it.\<close>

definition hmmsearch_cmd :: "nat \<Rightarrow> string \<Rightarrow> string \<Rightarrow> string \<Rightarrow> string" where
  "hmmsearch_cmd num_threads hmmsearch_file marker_genes_hmm annotated_genes =
     ''hmmsearch --noali --cpu '' @ str_nat num_threads @ '' --domtblout '' @ hmmsearch_file @
     '' '' @ marker_genes_hmm @ '' '' @ annotated_genes"

definition hmmsearch :: "env \<Rightarrow> params \<Rightarrow> string \<Rightarrow> string \<Rightarrow> string \<Rightarrow> nat \<Rightarrow> string run" where
  "hmmsearch env P genome_id species_id marker_genes_hmm num_threads =
     seq (download_reference env
            (input_annotations_file P genome_id species_id (genome_id @ ''.faa.lz4'')))
       (\<lambda>annotated_genes w1.
          let hmmsearch_file = genome_id @ ''.hmmsearch'';
              cmd = hmmsearch_cmd num_threads hmmsearch_file marker_genes_hmm annotated_genes
          in
            (case find_files hmmsearch_file w1 of
               (found, w2) \<Rightarrow>
                 (if found then
                    (Inr hmmsearch_file,
                     tsprint (''Found hmmsearch results for genome '' @ genome_id @
                              '' from prior run.'') w2)
                  else
                    (case command True cmd
                            (run_hmmsearch env cmd hmmsearch_file marker_genes_hmm annotated_genes)
                            w2 of
                       (Inl e, w3) \<Rightarrow>
                         (case command False
                                 (''mv '' @ hmmsearch_file @ '' '' @ hmmsearch_file @ ''.bogus'')
                                 (sh_mv hmmsearch_file (hmmsearch_file @ ''.bogus'')) w3 of
                            (_, w4) \<Rightarrow> (Inl e, w4))
                     | (Inr _, w3) \<Rightarrow> (Inr hmmsearch_file, w3)))))"

text \<open>
  \<^verbatim>\<open>fetch_genes\<close> streams the remote gene sequences through \<^verbatim>\<open>InputStream\<close> and
  \<^verbatim>\<open>Bio.SeqIO.parse\<close> and builds the dictionary from sequence id to upper-case sequence; a
  later record of an id replaces an earlier one.
\<close>

definition gene_seqs :: "(string \<times> string) list \<Rightarrow> (string \<rightharpoonup> string)" where
  "gene_seqs recs = foldl (\<lambda>m r. m(fst r \<mapsto> upper (snd r))) Map.empty recs"

definition fetch_genes :: "env \<Rightarrow> string \<Rightarrow> (string \<rightharpoonup> string) run" where
  "fetch_genes env annotated_genes w =
     (case files w annotated_genes of
        Some c \<Rightarrow>
          (if succeeds env (length (trace w)) then
             (case fasta_records env c of
                Some recs \<Rightarrow>
                  (Inr (gene_seqs recs), w\<lparr>trace := trace w @ [Fetch annotated_genes True]\<rparr>)
              | None \<Rightarrow> (Inl ParseError, w\<lparr>trace := trace w @ [Fetch annotated_genes True]\<rparr>))
           else (Inl DownloadError, w\<lparr>trace := trace w @ [Fetch annotated_genes False]\<rparr>))
      | None \<Rightarrow> (Inl DownloadError, w\<lparr>trace := trace w @ [Fetch annotated_genes False]\<rparr>))"

text \<open>
  \<^verbatim>\<open>parse_hmmsearch(hmmsearch_file)\<close>: the rows of the local report file; \<open>None\<close> when the
  file cannot be read or a line cannot be parsed.
\<close>

definition parse_hmmsearch :: "env \<Rightarrow> world \<Rightarrow> string \<Rightarrow> real hit list option" where
  "parse_hmmsearch env w hmmsearch_file =
     (case files w hmmsearch_file of
        None \<Rightarrow> None
      | Some c \<Rightarrow> hmmsearch_rows env c)"

text \<open>
  The loop of \<^verbatim>\<open>identify_marker_genes\<close> over the accepted hits, writing one line to the
  map file and one entry to the sequence file per hit; \<open>o_seq\<close> and \<open>o_map\<close> are what has
  been written so far. A hit whose gene is not among the sequences raises \<^verbatim>\<open>KeyError\<close>.
\<close>

primrec write_markers ::
  "(string \<rightharpoonup> string) \<Rightarrow> string \<Rightarrow> string \<Rightarrow> real hit list \<Rightarrow> string \<Rightarrow> string \<Rightarrow>
     (exn + unit) \<times> string \<times> string" where
  "write_markers genes species_id genome_id [] o_seq o_map = (Inr (), o_seq, o_map)"
| "write_markers genes species_id genome_id (r # rs) o_seq o_map =
     (case genes (query r) of
        None \<Rightarrow> (Inl KeyError, o_seq, o_map)
      | Some s \<Rightarrow>
          (let marker_gene = upper s;
               marker_info = [species_id, genome_id, query r, str_nat (length marker_gene), target r]
           in write_markers genes species_id genome_id rs
                (o_seq @ ''>'' @ query r @ [CHR 0x0A] @ marker_gene @ [CHR 0x0A])
                (o_map @ join [CHR 0x09] marker_info @ [CHR 0x0A])))"

definition identify_marker_genes :: "env \<Rightarrow> params \<Rightarrow> string \<Rightarrow> string \<Rightarrow> string \<Rightarrow> string list run" where
  "identify_marker_genes env P genome_id species_id marker_genes_hmm =
     seq (command True
            (''aws s3 rm --recursive '' @ output_marker_genes_file P genome_id species_id [])
            (aws_s3_rm env (output_marker_genes_file P genome_id species_id [])))
       (\<lambda>_. seq (hmmsearch env P genome_id species_id marker_genes_hmm 1)
       (\<lambda>hmmsearch_file.
          seq (fetch_genes env
                 (input_annotations_file P genome_id species_id (genome_id @ ''.ffn.lz4'')))
       (\<lambda>genes w3.
          let hmmsearch_seq = genome_id @ ''.markers.fa'';
              hmmsearch_map = genome_id @ ''.markers.map'';
              w4 = w3\<lparr>files := (files w3)(hmmsearch_seq \<mapsto> [], hmmsearch_map \<mapsto> [])\<rparr>
          in
            (case parse_hmmsearch env w4 hmmsearch_file of
               None \<Rightarrow> (Inl ParseError, w4)
             | Some rows \<Rightarrow>
                 (case write_markers genes species_id genome_id
                         (find_hits (inputs_hmmsearch_max_evalue P) (inputs_hmmsearch_min_cov P) rows)
                         [] [] of
                    (r, o_seq, o_map) \<Rightarrow>
                      (let w5 = w4\<lparr>files := (files w4)(hmmsearch_seq \<mapsto> o_seq, hmmsearch_map \<mapsto> o_map)\<rparr>;
                           output_files = [hmmsearch_file, hmmsearch_seq, hmmsearch_map]
                       in
                         (case r of
                            Inl e \<Rightarrow> (Inl e, w5)
                          | Inr _ \<Rightarrow>
                              (if last output_files = lastoutput genome_id
                               then (Inr output_files, w5)
                               else (Inl AssertionError, w5)))))))))"

text \<open>
  \<^verbatim>\<open>build_marker_genes_slave\<close>. \<^verbatim>\<open>os.path.isfile\<close> of an option that was not given raises
  \<^verbatim>\<open>TypeError\<close>; \<^verbatim>\<open>output_files[:-1]\<close> is \<open>butlast\<close> and \<^verbatim>\<open>output_files[-1]\<close> is \<open>last\<close>, the
  list being non-empty.
\<close>

definition build_marker_genes_slave :: "env \<Rightarrow> params \<Rightarrow> args \<Rightarrow> unit run" where
  "build_marker_genes_slave env P args w =
     (if \<not> args_zzz_slave_mode args then (Inl AssertionError, w)
      else
        (case args_zzz_slave_toc args of
           None \<Rightarrow> (Inl TypeError, w)
         | Some toc_path \<Rightarrow>
        (case files w toc_path of
           None \<Rightarrow> (Inl AssertionError, w)
         | Some toc \<Rightarrow>
        (case args_zzz_slave_marker_genes_hmm args of
           None \<Rightarrow> (Inl TypeError, w)
         | Some marker_genes_hmm \<Rightarrow>
        (if files w marker_genes_hmm = None then (Inl AssertionError, w)
         else
        (case args_genomes args of
           None \<Rightarrow> (Inl KeyError, w)
         | Some genome_id \<Rightarrow>
        (case map_of (uhgg_genomes env toc) genome_id of
           None \<Rightarrow> (Inl KeyError, w)
         | Some species_id \<Rightarrow>
             seq (identify_marker_genes env P genome_id species_id marker_genes_hmm)
               (\<lambda>output_files.
                  seq (multithreading_map env (upload_star env)
                         (map (\<lambda>out. (out, destpath P genome_id species_id out))
                            (butlast output_files)))
                    (\<lambda>_. upload env True (last output_files)
                            (destpath P genome_id species_id (last output_files))))
               w)))))))"

subsection \<open>The master\<close>

text \<open>
  \<^verbatim>\<open>decode_genomes_arg\<close>. Without \<^verbatim>\<open>--genomes\<close> the first line of the \<^verbatim>\<open>try\<close> block raises
  and the handler, which names the loop variable \<^verbatim>\<open>g\<close> before any token was bound to it,
  raises in turn. Otherwise the handler prints the token at hand and raises the
  exception again; without an exception the selected set is returned sorted.
\<close>

definition decode_genomes_arg :: "args \<Rightarrow> string list \<Rightarrow> string list run" where
  "decode_genomes_arg args genomes w =
     (case args_genomes args of
        None \<Rightarrow> (Inl UnboundLocalError, w)
      | Some expr \<Rightarrow>
          (case select_genomes expr genomes of
             Inl (e, g) \<Rightarrow>
               (Inl e,
                tsprint (''ERROR:  Genomes argument is not a list of genome ids or slices: '' @ g) w)
           | Inr selected_genomes \<Rightarrow> (Inr (sorted_list_of_set selected_genomes), w)))"

text \<open>
  \<^verbatim>\<open>genome_work\<close>, the closure of \<^verbatim>\<open>build_marker_genes_master\<close> that handles one genome;
  what it takes from the enclosing function are parameters here.
\<close>

definition slave_cmd :: "env \<Rightarrow> args \<Rightarrow> string \<Rightarrow> string \<Rightarrow> string \<Rightarrow> string \<Rightarrow> string \<Rightarrow> string" where
  "slave_cmd env args slave_subdir slave_log local_toc marker_genes_hmm genome_id =
     ''cd '' @ slave_subdir @ ''; PYTHONPATH='' @ pythonpath env @ '' '' @ executable env @
     '' -m iggtools build_marker_genes --genome '' @ genome_id @
     '' --zzz_slave_mode --zzz_slave_toc '' @ abspath env local_toc @
     '' --zzz_slave_marker_genes_hmm '' @ abspath env marker_genes_hmm @ '' '' @
     (if args_debug args then ''--debug'' else []) @ '' &>> '' @ slave_log"

definition genome_work ::
  "env \<Rightarrow> params \<Rightarrow> args \<Rightarrow> (string \<times> string) list \<Rightarrow> string \<Rightarrow> string \<Rightarrow> string \<Rightarrow> unit run" where
  "genome_work env P args species_for_genome local_toc marker_genes_hmm genome_id w =
     (case map_of species_for_genome genome_id of
        None \<Rightarrow> (Inl AssertionError, w)
      | Some species_id \<Rightarrow>
          (let dest_file = destpath P genome_id species_id (lastoutput genome_id);
               msg = ''Running HMMsearch for genome '' @ genome_id @ '' from species '' @
                     species_id @ ''.''
           in
             (case find_files_with_retry dest_file w of
                (found, w1) \<Rightarrow>
                  (if found \<and> \<not> args_force args then
                     (Inr (),
                      tsprint (''Destination '' @ dest_file @ '' for genome '' @ genome_id @
                               '' already exists.  Specify --force to overwrite.'') w1)
                   else
                     (let msg = (if found then replace ''Running'' ''Rerunning'' msg else msg);
                          slave_log = ''build_marker_genes.log'';
                          slave_subdir = species_id @ ''__'' @ genome_id;
                          cmd = slave_cmd env args slave_subdir slave_log local_toc
                                  marker_genes_hmm genome_id
                      in
                        seq (\<lambda>w. (Inr (), tsprint msg w))
                       (\<lambda>_. seq (\<lambda>w. if \<not> args_debug args
                                     then command True (''rm -rf '' @ slave_subdir)
                                            (sh_rm_rf slave_subdir) w
                                     else (Inr (), w))
                       (\<lambda>_. seq (\<lambda>w. if slave_subdir \<notin> dirs w
                                     then command True (''mkdir '' @ slave_subdir)
                                            (sh_mkdir slave_subdir) w
                                     else (Inr (), w))
                       (\<lambda>_. seq (\<lambda>w. if slave_subdir \<in> dirs w
                                     then (Inr (),
                                           w\<lparr>files := (files w)
                                              (slave_subdir @ ''/'' @ slave_log \<mapsto>
                                                 msg @ [CHR 0x0A] @ cmd @ [CHR 0x0A])\<rparr>)
                                     else (Inl IOError, w))
                       (\<lambda>_ w.
                          (case command True cmd (run_child env cmd) w of
                             (r, w') \<Rightarrow>
                               (case upload env False (slave_subdir @ ''/'' @ slave_log)
                                       (destpath P genome_id species_id slave_log) w' of
                                  (_, w'') \<Rightarrow>
                                    (if \<not> args_debug args then
                                       (case command False (''rm -rf '' @ slave_subdir)
                                               (sh_rm_rf slave_subdir) w'' of
                                          (_, w''') \<Rightarrow> (r, w'''))
                                     else (r, w'')))))))) w1)))))"

text \<open>
  \<^verbatim>\<open>build_marker_genes_master\<close>. The number of threads of the second pool bounds how
  many tasks run at once; as each task is run as a whole here, it does not appear.
\<close>

definition build_marker_genes_master :: "env \<Rightarrow> params \<Rightarrow> args \<Rightarrow> unit run" where
  "build_marker_genes_master env P args =
     seq (multithreading_map env (download_reference env)
            [outputs_genomes P, inputs_marker_genes_hmm P])
       (\<lambda>res w1.
          (case res of
             [local_toc, marker_genes_hmm] \<Rightarrow>
               (case files w1 local_toc of
                  None \<Rightarrow> (Inl IOError, w1)
                | Some toc \<Rightarrow>
                    (let species_for_genome = uhgg_genomes env toc in
                       seq (decode_genomes_arg args (map fst species_for_genome))
                         (\<lambda>genome_id_list.
                            seq (multithreading_map env
                                   (genome_work env P args species_for_genome local_toc
                                      marker_genes_hmm)
                                   genome_id_list)
                              (\<lambda>_ w. (Inr (), w)))
                         w1))
           | _ \<Rightarrow> (Inl ValueError, w1)))"

text \<open>\<^verbatim>\<open>build_marker_genes\<close>: the worker when \<^verbatim>\<open>--zzz_slave_toc\<close> is given and not empty.\<close>

definition build_marker_genes :: "env \<Rightarrow> params \<Rightarrow> args \<Rightarrow> unit run" where
  "build_marker_genes env P args =
     (case args_zzz_slave_toc args of
        None \<Rightarrow> build_marker_genes_master env P args
      | Some toc_path \<Rightarrow>
          (if toc_path \<noteq> [] then build_marker_genes_slave env P args
           else build_marker_genes_master env P args))"

section \<open>Specifications\<close>

text \<open>
  The predicates in which the properties below are stated, and the example inputs on
  which they are exercised. None of them is part of the program.
\<close>

subsection \<open>Hit selection\<close>

text \<open>
  The thresholds as the specification words them: a hit passes when its e-value does not
  exceed the maximum and the smaller of its two coverages is not below the minimum.
\<close>

definition passes :: "'v::linorder \<Rightarrow> 'v \<Rightarrow> 'v hit \<Rightarrow> bool" where
  "passes max_evalue min_cov r = (evalue r \<le> max_evalue \<and> min_cov \<le> min (qcov r) (tcov r))"

text \<open>
  \<open>first_best h rs\<close>: \<open>h\<close> stands in \<open>rs\<close> at a place where every hit before it has a
  strictly larger e-value and no hit after it has a strictly smaller one. It is the hit
  that "first seen, replaced only by a strictly smaller e-value" leaves.
\<close>

definition first_best :: "'v::linorder hit \<Rightarrow> 'v hit list \<Rightarrow> bool" where
  "first_best h rs =
     (\<exists>pre post. rs = pre @ h # post \<and> (\<forall>x \<in> set pre. evalue h < evalue x) \<and>
        (\<forall>x \<in> set post. evalue h \<le> evalue x))"

text \<open>The hits of \<open>rows\<close> that pass the thresholds and name the target \<open>t\<close>, in their order.\<close>

definition rivals :: "'v::linorder \<Rightarrow> 'v \<Rightarrow> string \<Rightarrow> 'v hit list \<Rightarrow> 'v hit list" where
  "rivals max_evalue min_cov t rows = filter (\<lambda>r. passes max_evalue min_cov r \<and> target r = t) rows"

text \<open>
  The invariant of the loop of \<^verbatim>\<open>find_hits\<close>: after the rows \<open>rows\<close> the dictionary
  holds, for each target, the first best of its rivals, and no other key.
\<close>

definition hits_inv :: "'v::linorder \<Rightarrow> 'v \<Rightarrow> 'v hit list \<Rightarrow> (string \<times> 'v hit) list \<Rightarrow> bool" where
  "hits_inv mx mn rows hits =
     (distinct (map fst hits) \<and>
      (\<forall>t. map_of hits t = None \<longrightarrow> rivals mx mn t rows = []) \<and>
      (\<forall>t h. map_of hits t = Some h \<longrightarrow> target h = t \<and> first_best h (rivals mx mn t rows)))"

subsection \<open>Selection expressions\<close>

text \<open>
  A token is a well-formed slice when it splits at its colons into two parts that
  Python's \<^verbatim>\<open>int\<close> reads as \<open>i\<close> and \<open>n\<close> with \<open>0 \<le> i < n\<close>.
\<close>

definition well_formed_slice :: "string \<Rightarrow> bool" where
  "well_formed_slice g =
     (case split (CHR '':'') g of
        [a, b] \<Rightarrow>
          (case py_int a of
             None \<Rightarrow> False
           | Some i \<Rightarrow> (case py_int b of None \<Rightarrow> False | Some n \<Rightarrow> 0 \<le> i \<and> i < n))
      | _ \<Rightarrow> False)"

text \<open>The characters that \<^verbatim>\<open>str\<close> of a non-negative integer is made of.\<close>

definition plain :: "char \<Rightarrow> bool" where
  "plain c = (\<exists>d<10. c = digit_char d)"

subsection \<open>Events\<close>

text \<open>The events that write to the remote store.\<close>

fun is_upload :: "event \<Rightarrow> bool" where
  "is_upload (Upload src dst b) = True"
| "is_upload ev = False"

text \<open>The events that ask whether a file exists.\<close>

fun is_find :: "event \<Rightarrow> bool" where
  "is_find (FindFiles p b) = True"
| "is_find ev = False"

subsection \<open>Example inputs\<close>

text \<open>
  Example inputs for the witnesses: a catalog of two genomes of one species, a store that
  holds the inputs of genome \<open>G1\<close>, and an outside in which everything succeeds.
\<close>

definition demo_params :: params where
  "demo_params =
     \<lparr>outputs_annotations = ''s3://igg/annot'', outputs_marker_genes = ''s3://igg/mg'',
       outputs_genomes = ''s3://igg/genomes.tsv'',
       inputs_marker_genes_hmm = ''s3://igg/phyeco.hmm'',
       inputs_hmmsearch_max_evalue = 1 / 10 ^ 5, inputs_hmmsearch_min_cov = 7 / 10\<rparr>"

definition demo_env :: env where
  "demo_env =
     \<lparr>succeeds = (\<lambda>k. True), sched = (\<lambda>k. 0),
       local_copy = (\<lambda>p. last (split (CHR ''/'') p)),
       tool_report = (\<lambda>c. ''report''), tool_partial = (\<lambda>c. Some []),
       child_run = (\<lambda>c w. w),
       hmmsearch_rows = (\<lambda>c. Some [\<lparr>query = ''g1'', target = ''m1'', evalue = 1 / 10 ^ 10,
                                     qcov = 9 / 10, tcov = 8 / 10, qlen = 300, tlen = 120\<rparr>]),
       fasta_records = (\<lambda>c. Some [(''g1'', ''acgt'')]),
       uhgg_genomes = (\<lambda>c. [(''G1'', ''s1''), (''G2'', ''s1'')]),
       abspath = (\<lambda>p. ''/w/'' @ p), pythonpath = ''/pp'', executable = ''python3''\<rparr>"

definition demo_store :: world where
  "demo_store =
     \<lparr>files = [''toc'' \<mapsto> ''TOC'', ''hmm'' \<mapsto> ''HMM'',
               ''s3://igg/genomes.tsv'' \<mapsto> ''TOC'', ''s3://igg/phyeco.hmm'' \<mapsto> ''HMM'',
               ''s3://igg/annot/s1/G1/G1.faa.lz4'' \<mapsto> ''FAA'',
               ''s3://igg/annot/s1/G1/G1.ffn.lz4'' \<mapsto> ''FFN''],
       dirs = {}, trace = []\<rparr>"

definition demo_args :: "string \<Rightarrow> args" where
  "demo_args expr =
     \<lparr>args_genomes = Some expr, args_force = False, args_debug = False,
       args_zzz_slave_mode = False, args_zzz_slave_toc = None,
       args_zzz_slave_marker_genes_hmm = None\<rparr>"

text \<open>The command line of the worker that the master starts for genome \<open>G1\<close>.\<close>

definition demo_worker_args :: args where
  "demo_worker_args =
     \<lparr>args_genomes = Some ''G1'', args_force = False, args_debug = False,
       args_zzz_slave_mode = True, args_zzz_slave_toc = Some ''toc'',
       args_zzz_slave_marker_genes_hmm = Some ''hmm''\<rparr>"

section \<open>Verification\<close>

subsection \<open>Hit selection\<close>

lemma py_min_min: "py_min a b = min a b"
  by (auto simp: py_min_def min_def)

lemma passes_iff:
  "passes mx mn r = (\<not> evalue r > mx \<and> \<not> py_min (qcov r) (tcov r) < mn)"
  by (auto simp: passes_def py_min_def min_def not_less)

lemma find_hits_step_fails:
  "\<not> passes mx mn r \<Longrightarrow> find_hits_step mx mn hits r = hits"
  unfolding passes_iff by (auto simp: find_hits_step_def)

lemma find_hits_step_passes:
  "passes mx mn r \<Longrightarrow> find_hits_step mx mn hits r =
     (case map_of hits (target r) of
        None \<Rightarrow> AList.update (target r) r hits
      | Some h \<Rightarrow> (if evalue r < evalue h then AList.update (target r) r hits else hits))"
  unfolding passes_iff by (auto simp: find_hits_step_def)

lemma first_best_single: "first_best h [h]"
  unfolding first_best_def by (rule exI[of _ "[]"], rule exI[of _ "[]"]) simp

lemma first_best_replace:
  assumes "first_best h rs" "evalue r < evalue h"
  shows "first_best r (rs @ [r])"
proof -
  from assms(1) obtain pre post where
    rs: "rs = pre @ h # post" and a: "\<forall>x \<in> set pre. evalue h < evalue x"
    and b: "\<forall>x \<in> set post. evalue h \<le> evalue x"
    unfolding first_best_def by blast
  have "\<forall>x \<in> set rs. evalue r < evalue x"
    using a b assms(2) rs by fastforce
  then show ?thesis
    unfolding first_best_def by (intro exI[of _ rs] exI[of _ "[]"]) simp
qed

lemma first_best_keep:
  assumes "first_best h rs" "\<not> evalue r < evalue h"
  shows "first_best h (rs @ [r])"
proof -
  from assms(1) obtain pre post where
    rs: "rs = pre @ h # post" and a: "\<forall>x \<in> set pre. evalue h < evalue x"
    and b: "\<forall>x \<in> set post. evalue h \<le> evalue x"
    unfolding first_best_def by blast
  show ?thesis
    unfolding first_best_def
    using rs a b assms(2) by (intro exI[of _ pre] exI[of _ "post @ [r]"]) auto
qed

lemma hits_inv_step:
  assumes "hits_inv mx mn rows hits"
  shows "hits_inv mx mn (rows @ [r]) (find_hits_step mx mn hits r)"
proof (cases "passes mx mn r")
  case False
  then have "rivals mx mn t (rows @ [r]) = rivals mx mn t rows" for t
    by (simp add: rivals_def)
  with assms False show ?thesis
    by (simp add: find_hits_step_fails hits_inv_def)
next
  case True
  have other: "rivals mx mn t (rows @ [r]) = rivals mx mn t rows" if "t \<noteq> target r" for t
    using that by (auto simp: rivals_def)
  have same: "rivals mx mn (target r) (rows @ [r]) = rivals mx mn (target r) rows @ [r]"
    using True by (simp add: rivals_def)
  from assms have d: "distinct (map fst hits)"
    and none: "\<And>t. map_of hits t = None \<Longrightarrow> rivals mx mn t rows = []"
    and some: "\<And>t h. map_of hits t = Some h \<Longrightarrow> target h = t \<and> first_best h (rivals mx mn t rows)"
    by (auto simp: hits_inv_def)
  have upd: "hits_inv mx mn (rows @ [r]) (AList.update (target r) r hits)"
    if "first_best r (rivals mx mn (target r) rows @ [r])"
    unfolding hits_inv_def
  proof (intro conjI allI impI)
    show "distinct (map fst (AList.update (target r) r hits))"
      using d by (simp add: distinct_update)
  next
    fix t
    assume "map_of (AList.update (target r) r hits) t = None"
    then have "t \<noteq> target r" "map_of hits t = None"
      by (auto simp: update_conv' split: if_splits)
    then show "rivals mx mn t (rows @ [r]) = []"
      using none other by simp
  next
    fix t h
    assume a: "map_of (AList.update (target r) r hits) t = Some h"
    show "target h = t"
      using a some by (auto simp: update_conv' split: if_splits)
    show "first_best h (rivals mx mn t (rows @ [r]))"
    proof (cases "t = target r")
      case True
      with a have "h = r" by (simp add: update_conv')
      with True that show ?thesis by (simp add: same)
    next
      case False
      with a have "map_of hits t = Some h" by (simp add: update_conv')
      with False some other show ?thesis by simp
    qed
  qed
  show ?thesis
  proof (cases "map_of hits (target r)")
    case None
    then have "rivals mx mn (target r) rows = []" by (rule none)
    then have "first_best r (rivals mx mn (target r) rows @ [r])"
      by (simp add: first_best_single)
    then show ?thesis
      using True None by (simp add: find_hits_step_passes upd)
  next
    case (Some h)
    then have th: "target h = target r"
      and fb: "first_best h (rivals mx mn (target r) rows)"
      using some by simp_all
    show ?thesis
    proof (cases "evalue r < evalue h")
      case lt: True
      then show ?thesis
        using True Some by (simp add: find_hits_step_passes upd first_best_replace[OF fb])
    next
      case ge: False
      have step: "find_hits_step mx mn hits r = hits"
        using True Some ge by (simp add: find_hits_step_passes)
      show ?thesis
        unfolding hits_inv_def step
      proof (intro conjI allI impI)
        show "distinct (map fst hits)" by (rule d)
      next
        fix t
        assume a: "map_of hits t = None"
        with Some have "t \<noteq> target r" by auto
        with a none other show "rivals mx mn t (rows @ [r]) = []" by simp
      next
        fix t h'
        assume a: "map_of hits t = Some h'"
        show "target h' = t" using a some by simp
        show "first_best h' (rivals mx mn t (rows @ [r]))"
        proof (cases "t = target r")
          case True
          with a Some have "h' = h" by simp
          with True show ?thesis by (simp add: same first_best_keep[OF fb ge])
        next
          case False
          with a some other show ?thesis by simp
        qed
      qed
    qed
  qed
qed

lemma hits_inv_foldl:
  "hits_inv mx mn rows (foldl (find_hits_step mx mn) [] rows)"
proof (induction rows rule: rev_induct)
  case Nil
  show ?case by (simp add: hits_inv_def rivals_def)
next
  case (snoc r rows)
  then show ?case by (simp add: hits_inv_step)
qed

lemma hits_inv_distinct: "hits_inv mx mn rows hits \<Longrightarrow> distinct (map fst hits)"
  unfolding hits_inv_def by blast

lemma hits_inv_None: "hits_inv mx mn rows hits \<Longrightarrow> map_of hits t = None \<Longrightarrow> rivals mx mn t rows = []"
  unfolding hits_inv_def by blast

lemma hits_inv_Some:
  "hits_inv mx mn rows hits \<Longrightarrow> map_of hits t = Some h \<Longrightarrow>
     target h = t \<and> first_best h (rivals mx mn t rows)"
  unfolding hits_inv_def by blast

lemma find_hits_entries:
  assumes "h \<in> set (find_hits mx mn rows)"
  shows "map_of (foldl (find_hits_step mx mn) [] rows) (target h) = Some h"
proof -
  define acc where "acc = foldl (find_hits_step mx mn) [] rows"
  have inv: "hits_inv mx mn rows acc" unfolding acc_def by (rule hits_inv_foldl)
  from assms obtain t where th: "(t, h) \<in> set acc"
    unfolding find_hits_def acc_def by auto
  have "distinct (map fst acc)" using inv by (rule hits_inv_distinct)
  with th have m: "map_of acc t = Some h" by simp
  from hits_inv_Some[OF inv m] have "target h = t" by simp
  with m show ?thesis unfolding acc_def by simp
qed

lemma find_hits_first_best:
  assumes "h \<in> set (find_hits mx mn rows)"
  shows "first_best h (rivals mx mn (target h) rows)"
  using hits_inv_Some[OF hits_inv_foldl find_hits_entries[OF assms]] by simp

lemma first_best_mem: "first_best h rs \<Longrightarrow> h \<in> set rs"
  by (auto simp: first_best_def)

lemma first_best_le: "first_best h rs \<Longrightarrow> r \<in> set rs \<Longrightarrow> evalue h \<le> evalue r"
  by (auto simp: first_best_def less_imp_le)

lemma find_hits_sound:
  assumes "h \<in> set (find_hits mx mn rows)"
  shows "h \<in> set rows \<and> passes mx mn h"
  using first_best_mem[OF find_hits_first_best[OF assms]] by (simp add: rivals_def)

lemma find_hits_covers:
  assumes "r \<in> set rows" "passes mx mn r"
  shows "\<exists>h \<in> set (find_hits mx mn rows). target h = target r \<and> evalue h \<le> evalue r"
proof -
  define acc where "acc = foldl (find_hits_step mx mn) [] rows"
  have inv: "hits_inv mx mn rows acc" unfolding acc_def by (rule hits_inv_foldl)
  from assms have mem: "r \<in> set (rivals mx mn (target r) rows)" by (simp add: rivals_def)
  have "map_of acc (target r) \<noteq> None"
  proof
    assume "map_of acc (target r) = None"
    from hits_inv_None[OF inv this] mem show False by simp
  qed
  then obtain h where m: "map_of acc (target r) = Some h" by auto
  from hits_inv_Some[OF inv m]
  have t: "target h = target r" and fb: "first_best h (rivals mx mn (target r) rows)"
    by simp_all
  from m have "(target r, h) \<in> set acc" by (rule map_of_SomeD)
  then have "snd (target r, h) \<in> snd ` set acc" by (rule imageI)
  then have "h \<in> set (find_hits mx mn rows)" unfolding find_hits_def acc_def by simp
  with t first_best_le[OF fb mem] show ?thesis by blast
qed

lemma find_hits_distinct: "distinct (map target (find_hits mx mn rows))"
proof -
  define acc where "acc = foldl (find_hits_step mx mn) [] rows"
  have inv: "hits_inv mx mn rows acc" unfolding acc_def by (rule hits_inv_foldl)
  then have d: "distinct (map fst acc)" by (rule hits_inv_distinct)
  have "target (snd p) = fst p" if "p \<in> set acc" for p
  proof -
    from that d have "map_of acc (fst p) = Some (snd p)" by simp
    from hits_inv_Some[OF inv this] show ?thesis by simp
  qed
  then have e: "map target (map snd acc) = map fst acc" by simp
  have f: "find_hits mx mn rows = map snd acc" by (simp add: find_hits_def acc_def)
  show ?thesis by (simp only: f e d)
qed

lemma foldl_find_hits_filter:
  "foldl (find_hits_step mx mn) acc (filter (passes mx mn) rows) =
   foldl (find_hits_step mx mn) acc rows"
  by (induction rows arbitrary: acc) (simp_all add: find_hits_step_fails)

lemma find_hits_filter: "find_hits mx mn (filter (passes mx mn) rows) = find_hits mx mn rows"
  by (simp add: find_hits_def foldl_find_hits_filter)

lemma find_hits_single: "find_hits mx mn [r] = (if passes mx mn r then [r] else [])"
  by (simp add: find_hits_def find_hits_step_fails find_hits_step_passes)

lemma find_hits_pair:
  assumes "passes mx mn r1" "passes mx mn r2" "target r1 = target r2"
  shows "find_hits mx mn [r1, r2] = [if evalue r2 < evalue r1 then r2 else r1]"
  using assms by (simp add: find_hits_def find_hits_step_passes)

lemma passes_code: "passes mx mn r = (\<not> (mx < evalue r \<or> min (qcov r) (tcov r) < mn))"
  by (auto simp: passes_def not_less)

text \<open>
  Claim C3. Among the hits that pass the thresholds, \<^verbatim>\<open>find_hits\<close> keeps exactly one hit
  per target: the targets of the result are pairwise distinct and are the targets of the
  passing rows; the hit kept for a target is the one that every earlier passing hit of
  the target has a strictly larger e-value than, and that no later one has a strictly
  smaller e-value than (so a later hit replaces an earlier one only when strictly
  smaller, and a tie keeps the earlier). For two passing hits on one target, in input
  order, the second is returned exactly when its e-value is strictly smaller, else the
  first.
\<close>

theorem find_hits_one_per_target:
  "distinct (map target (find_hits mx mn (rows :: 'v::linorder hit list))) \<and>
   target ` set (find_hits mx mn rows) = target ` {r \<in> set rows. passes mx mn r} \<and>
   (\<forall>h \<in> set (find_hits mx mn rows). first_best h (rivals mx mn (target h) rows)) \<and>
   (\<forall>r1 r2. passes mx mn r1 \<and> passes mx mn r2 \<and> target r1 = target r2 \<longrightarrow>
      find_hits mx mn [r1, r2] = [if evalue r2 < evalue r1 then r2 else r1])"
proof (intro conjI ballI allI impI)
  show "distinct (map target (find_hits mx mn rows))" by (rule find_hits_distinct)
next
  show "target ` set (find_hits mx mn rows) = target ` {r \<in> set rows. passes mx mn r}"
  proof (intro set_eqI iffI)
    fix t assume "t \<in> target ` set (find_hits mx mn rows)"
    then show "t \<in> target ` {r \<in> set rows. passes mx mn r}"
      using find_hits_sound by blast
  next
    fix t assume "t \<in> target ` {r \<in> set rows. passes mx mn r}"
    then obtain r where "r \<in> set rows" "passes mx mn r" "t = target r" by auto
    with find_hits_covers[of r rows mx mn] obtain h where
      "h \<in> set (find_hits mx mn rows)" "target h = t" by auto
    then show "t \<in> target ` set (find_hits mx mn rows)" by (auto intro: image_eqI)
  qed
next
  fix h assume "h \<in> set (find_hits mx mn rows)"
  then show "first_best h (rivals mx mn (target h) rows)" by (rule find_hits_first_best)
next
  fix r1 r2 :: "'v hit"
  assume "passes mx mn r1 \<and> passes mx mn r2 \<and> target r1 = target r2"
  then show "find_hits mx mn [r1, r2] = [if evalue r2 < evalue r1 then r2 else r1]"
    by (simp add: find_hits_pair)
qed

text \<open>
  Claim C6. \<^verbatim>\<open>find_hits\<close> discards a parsed hit exactly when its e-value exceeds the
  maximum or the minimum of its two coverages is below the minimum coverage: a single
  hit is returned if and only if neither holds, and the discarded rows have no effect on
  the result. Every returned hit is a row that satisfies both thresholds; a row whose
  coverage is below the threshold is not returned even when its e-value passes; and a
  row that satisfies both is represented by a returned hit of its target that is at
  least as strong.
\<close>

theorem find_hits_thresholds:
  "find_hits mx mn [r] = (if mx < evalue r \<or> min (qcov r) (tcov r) < mn then [] else [r]) \<and>
   find_hits mx mn rows =
     find_hits mx mn (filter (\<lambda>r. \<not> (mx < evalue r \<or> min (qcov r) (tcov r) < mn)) rows) \<and>
   (\<forall>h \<in> set (find_hits mx mn rows).
      h \<in> set rows \<and> evalue h \<le> mx \<and> mn \<le> min (qcov h) (tcov h)) \<and>
   (\<forall>r \<in> set rows. evalue r \<le> mx \<and> min (qcov r) (tcov r) < mn \<longrightarrow>
      r \<notin> set (find_hits mx mn rows)) \<and>
   (\<forall>r \<in> set rows. evalue r \<le> mx \<and> mn \<le> min (qcov r) (tcov r) \<longrightarrow>
      (\<exists>h \<in> set (find_hits mx mn rows). target h = target r \<and> evalue h \<le> evalue r))"
proof -
  have one: "find_hits mx mn [r] =
      (if mx < evalue r \<or> min (qcov r) (tcov r) < mn then [] else [r])"
    by (simp add: find_hits_single passes_code)
  have "filter (\<lambda>r. \<not> (mx < evalue r \<or> min (qcov r) (tcov r) < mn)) rows =
        filter (passes mx mn) rows"
    by (rule filter_cong) (simp_all add: passes_code)
  then have two: "find_hits mx mn rows =
     find_hits mx mn (filter (\<lambda>r. \<not> (mx < evalue r \<or> min (qcov r) (tcov r) < mn)) rows)"
    by (simp add: find_hits_filter)
  have three: "h \<in> set rows \<and> evalue h \<le> mx \<and> mn \<le> min (qcov h) (tcov h)"
    if "h \<in> set (find_hits mx mn rows)" for h
    using find_hits_sound[OF that] by (simp add: passes_def)
  have four: "r \<notin> set (find_hits mx mn rows)"
    if "evalue r \<le> mx \<and> min (qcov r) (tcov r) < mn" for r
  proof
    assume "r \<in> set (find_hits mx mn rows)"
    then have "passes mx mn r" using find_hits_sound by blast
    with that show False by (simp add: passes_code)
  qed
  have five: "\<exists>h \<in> set (find_hits mx mn rows). target h = target r \<and> evalue h \<le> evalue r"
    if "r \<in> set rows" "evalue r \<le> mx \<and> mn \<le> min (qcov r) (tcov r)" for r
    using that by (intro find_hits_covers) (simp_all add: passes_def)
  show ?thesis
  proof (intro conjI)
    show "find_hits mx mn [r] =
      (if mx < evalue r \<or> min (qcov r) (tcov r) < mn then [] else [r])"
      by (rule one)
    show "find_hits mx mn rows =
      find_hits mx mn (filter (\<lambda>r. \<not> (mx < evalue r \<or> min (qcov r) (tcov r) < mn)) rows)"
      by (rule two)
    show "\<forall>h \<in> set (find_hits mx mn rows).
      h \<in> set rows \<and> evalue h \<le> mx \<and> mn \<le> min (qcov h) (tcov h)"
      using three by (intro ballI)
    show "\<forall>r \<in> set rows. evalue r \<le> mx \<and> min (qcov r) (tcov r) < mn \<longrightarrow>
      r \<notin> set (find_hits mx mn rows)"
      using four by (intro ballI impI)
    show "\<forall>r \<in> set rows. evalue r \<le> mx \<and> mn \<le> min (qcov r) (tcov r) \<longrightarrow>
      (\<exists>h \<in> set (find_hits mx mn rows). target h = target r \<and> evalue h \<le> evalue r)"
      using five by (intro ballI impI)
  qed
qed

theorem find_hits_one_per_target_witness:
  "find_hits (1 / 10 ^ 5 :: real) (7 / 10)
     [\<lparr>query = ''g1'', target = ''m1'', evalue = 1 / 10 ^ 5, qcov = 9 / 10, tcov = 8 / 10,
        qlen = 300, tlen = 120\<rparr>,
      \<lparr>query = ''g2'', target = ''m1'', evalue = 1 / 10 ^ 10, qcov = 9 / 10, tcov = 9 / 10,
        qlen = 310, tlen = 120\<rparr>] =
     [\<lparr>query = ''g2'', target = ''m1'', evalue = 1 / 10 ^ 10, qcov = 9 / 10, tcov = 9 / 10,
        qlen = 310, tlen = 120\<rparr>] \<and>
   first_best
     \<lparr>query = ''g2'', target = ''m1'', evalue = 1 / 10 ^ 10 :: real, qcov = 9 / 10, tcov = 9 / 10,
        qlen = 310, tlen = 120\<rparr>
     (rivals (1 / 10 ^ 5) (7 / 10) ''m1''
       [\<lparr>query = ''g1'', target = ''m1'', evalue = 1 / 10 ^ 5, qcov = 9 / 10, tcov = 8 / 10,
          qlen = 300, tlen = 120\<rparr>,
        \<lparr>query = ''g2'', target = ''m1'', evalue = 1 / 10 ^ 10, qcov = 9 / 10, tcov = 9 / 10,
          qlen = 310, tlen = 120\<rparr>])"
proof -
  let ?a = "\<lparr>query = ''g1'', target = ''m1'', evalue = 1 / 10 ^ 5 :: real, qcov = 9 / 10,
    tcov = 8 / 10, qlen = 300, tlen = 120\<rparr>"
  let ?b = "\<lparr>query = ''g2'', target = ''m1'', evalue = 1 / 10 ^ 10 :: real, qcov = 9 / 10,
    tcov = 9 / 10, qlen = 310, tlen = 120\<rparr>"
  have p: "passes (1 / 10 ^ 5) (7 / 10) ?a \<and> passes (1 / 10 ^ 5) (7 / 10) ?b \<and>
      target ?a = target ?b"
    by (simp add: passes_def)
  have two: "find_hits (1 / 10 ^ 5) (7 / 10) [?a, ?b] = [?b]"
    using find_hits_one_per_target[of "1 / 10 ^ 5" "7 / 10" "[?a, ?b]"] p by simp
  then have mem: "?b \<in> set (find_hits (1 / 10 ^ 5) (7 / 10) [?a, ?b])"
    by simp
  have "first_best ?b (rivals (1 / 10 ^ 5) (7 / 10) (target ?b) [?a, ?b])"
    using find_hits_one_per_target[of "1 / 10 ^ 5" "7 / 10" "[?a, ?b]"] mem by blast
  with two show ?thesis by simp
qed

theorem find_hits_thresholds_witness:
  "\<lparr>query = ''g1'', target = ''m1'', evalue = 1 / 10 ^ 10 :: real, qcov = 9 / 10, tcov = 1 / 2,
      qlen = 300, tlen = 120\<rparr>
     \<notin> set (find_hits (1 / 10 ^ 5) (7 / 10)
       [\<lparr>query = ''g1'', target = ''m1'', evalue = 1 / 10 ^ 10, qcov = 9 / 10, tcov = 1 / 2,
          qlen = 300, tlen = 120\<rparr>,
        \<lparr>query = ''g2'', target = ''m1'', evalue = 1 / 10 ^ 6, qcov = 9 / 10, tcov = 9 / 10,
          qlen = 310, tlen = 120\<rparr>]) \<and>
   (\<exists>h \<in> set (find_hits (1 / 10 ^ 5 :: real) (7 / 10)
       [\<lparr>query = ''g1'', target = ''m1'', evalue = 1 / 10 ^ 10, qcov = 9 / 10, tcov = 1 / 2,
          qlen = 300, tlen = 120\<rparr>,
        \<lparr>query = ''g2'', target = ''m1'', evalue = 1 / 10 ^ 6, qcov = 9 / 10, tcov = 9 / 10,
          qlen = 310, tlen = 120\<rparr>]).
      target h = ''m1'' \<and> evalue h \<le> 1 / 10 ^ 6 \<and> evalue h \<le> 1 / 10 ^ 5 \<and>
      7 / 10 \<le> min (qcov h) (tcov h))"
proof -
  let ?a = "\<lparr>query = ''g1'', target = ''m1'', evalue = 1 / 10 ^ 10 :: real, qcov = 9 / 10,
    tcov = 1 / 2, qlen = 300, tlen = 120\<rparr>"
  let ?b = "\<lparr>query = ''g2'', target = ''m1'', evalue = 1 / 10 ^ 6 :: real, qcov = 9 / 10,
    tcov = 9 / 10, qlen = 310, tlen = 120\<rparr>"
  note T = find_hits_thresholds[of "1 / 10 ^ 5" "7 / 10" ?a "[?a, ?b]"]
  have a: "?a \<in> set [?a, ?b]" "evalue ?a \<le> 1 / 10 ^ 5 \<and> min (qcov ?a) (tcov ?a) < 7 / 10"
    by simp_all
  have na: "?a \<notin> set (find_hits (1 / 10 ^ 5) (7 / 10) [?a, ?b])"
    using T a by blast
  have b: "?b \<in> set [?a, ?b]" "evalue ?b \<le> 1 / 10 ^ 5 \<and> 7 / 10 \<le> min (qcov ?b) (tcov ?b)"
    by simp_all
  from T b obtain h where h: "h \<in> set (find_hits (1 / 10 ^ 5) (7 / 10) [?a, ?b])"
    "target h = target ?b" "evalue h \<le> evalue ?b"
    by blast
  with T have "evalue h \<le> 1 / 10 ^ 5 \<and> 7 / 10 \<le> min (qcov h) (tcov h)"
    by blast
  with h na show ?thesis by auto
qed

subsection \<open>Work-item resolution\<close>

lemma small_cases: "(d::nat) < 10 \<Longrightarrow> d = 0 \<or> d = 1 \<or> d = 2 \<or> d = 3 \<or> d = 4 \<or> d = 5 \<or> d = 6 \<or> d = 7 \<or> d = 8 \<or> d = 9"
  by arith

lemma digit_of_digit_char: "d < 10 \<Longrightarrow> digit_of (digit_char d) = Some (int d)"
  by (drule small_cases) (elim disjE; simp add: digit_of_def digit_char_def)

lemma digit_char_plain:
  "d < 10 \<Longrightarrow> \<not> is_space (digit_char d) \<and> digit_char d \<noteq> CHR ''-'' \<and> digit_char d \<noteq> CHR ''+'' \<and>
     digit_char d \<noteq> CHR '':'' \<and> digit_char d \<noteq> CHR '','' \<and> char_upper (digit_char d) = digit_char d
     \<and> digit_char d \<noteq> CHR ''A'' \<and> digit_char d \<noteq> CHR ''L''"
  by (drule small_cases) (elim disjE; simp add: digit_char_def is_space_def char_upper_def)

lemma str_nat_plain: "\<forall>c \<in> set (str_nat n). plain c"
proof (induction n rule: str_nat.induct)
  case (1 n)
  show ?case
  proof (cases "n < 10")
    case True
    then show ?thesis by (subst str_nat.simps) (auto simp: plain_def)
  next
    case False
    have "plain (digit_char (n mod 10))"
      unfolding plain_def by (rule exI[of _ "n mod 10"]) simp
    with False 1 show ?thesis by (subst str_nat.simps) auto
  qed
qed

lemma str_nat_nonempty: "str_nat n \<noteq> []"
  by (subst str_nat.simps) simp

lemma py_digits_append:
  "\<forall>c \<in> set cs. plain c \<Longrightarrow> d < 10 \<Longrightarrow> py_digits acc cs = Some v \<Longrightarrow>
     py_digits acc (cs @ [digit_char d]) = Some (v * 10 + int d)"
proof (induction cs arbitrary: acc)
  case Nil
  then show ?case by (simp add: digit_of_digit_char)
next
  case (Cons c cs)
  from Cons.prems(1) obtain e where e: "e < 10" "c = digit_char e" by (auto simp: plain_def)
  with Cons show ?case by (simp add: digit_of_digit_char)
qed

lemma py_literal_str_nat: "py_literal (str_nat n) = Some (int n)"
proof (induction n rule: str_nat.induct)
  case (1 n)
  show ?case
  proof (cases "n < 10")
    case True
    then show ?thesis
      by (subst str_nat.simps) (simp add: py_literal_def digit_of_digit_char)
  next
    case False
    then have ih: "py_literal (str_nat (n div 10)) = Some (int (n div 10))" using 1 by simp
    obtain c cs where cs: "str_nat (n div 10) = c # cs"
      using str_nat_nonempty[of "n div 10"] by (cases "str_nat (n div 10)") auto
    have pl: "\<forall>x \<in> set (c # cs). plain x" using str_nat_plain[of "n div 10"] cs by simp
    then obtain e where e: "e < 10" "c = digit_char e" by (auto simp: plain_def)
    from ih cs e have "py_digits (int e) cs = Some (int (n div 10))"
      by (simp add: py_literal_def digit_of_digit_char)
    then have "py_digits (int e) (cs @ [digit_char (n mod 10)]) = Some (int (n div 10) * 10 + int (n mod 10))"
      using pl by (intro py_digits_append) simp_all
    moreover have "int (n div 10) * 10 + int (n mod 10) = int n"
      by (simp add: zdiv_int zmod_int)
    ultimately show ?thesis
      using False cs e by (subst str_nat.simps) (simp add: py_literal_def digit_of_digit_char)
  qed
qed

lemma strip_plain:
  assumes "\<forall>c \<in> set s. \<not> is_space c"
  shows "strip s = s"
proof -
  have a: "dropWhile is_space xs = xs" if "\<forall>c \<in> set xs. \<not> is_space c" for xs
    using that by (cases xs) auto
  from assms have "dropWhile is_space s = s" by (rule a)
  moreover from assms have "dropWhile is_space (rev s) = rev s" by (intro a) simp
  ultimately show ?thesis by (simp add: strip_def)
qed

lemma py_int_str_nat: "py_int (str_nat n) = Some (int n)"
proof -
  have pl: "\<forall>c \<in> set (str_nat n). plain c" by (rule str_nat_plain)
  then have "\<forall>c \<in> set (str_nat n). \<not> is_space c"
    using digit_char_plain by (auto simp: plain_def)
  then have s: "strip (str_nat n) = str_nat n" by (rule strip_plain)
  obtain c cs where cs: "str_nat n = c # cs"
    using str_nat_nonempty[of n] by (cases "str_nat n") auto
  with pl have "c \<noteq> CHR ''-'' \<and> c \<noteq> CHR ''+''"
    using digit_char_plain by (auto simp: plain_def)
  then show ?thesis
    using py_literal_str_nat[of n] cs s by (simp add: py_int_def)
qed

lemma split_absent: "sep \<notin> set s \<Longrightarrow> split sep s = [s]"
  by (induction s) auto

lemma split_append: "sep \<notin> set a \<Longrightarrow> split sep (a @ sep # b) = a # split sep b"
  by (induction a) auto

lemma split_nonempty: "split sep s \<noteq> []"
  by (induction s) (auto split: list.splits)

lemma split_present: "sep \<in> set s \<Longrightarrow> \<exists>a rest. split sep s = a # rest \<and> rest \<noteq> []"
proof (induction s)
  case Nil
  then show ?case by simp
next
  case (Cons c s)
  show ?case
  proof (cases "c = sep")
    case True
    then show ?thesis using split_nonempty[of sep s] by (cases "split sep s") auto
  next
    case False
    with Cons obtain a rest where "split sep s = a # rest" "rest \<noteq> []" by auto
    with False show ?thesis by simp
  qed
qed

lemma upper_ALL_no_colon: "upper s = ''ALL'' \<Longrightarrow> CHR '':'' \<notin> set s"
proof
  assume a: "upper s = ''ALL''" and b: "CHR '':'' \<in> set s"
  from b have "char_upper (CHR '':'') \<in> set (upper s)" by (auto simp: upper_def)
  with a show False by (simp add: char_upper_def)
qed

lemma split_subset: "g \<in> set (split sep s) \<Longrightarrow> set g \<subseteq> set s"
proof (induction s arbitrary: g)
  case Nil
  then show ?case by simp
next
  case (Cons c s)
  show ?case
  proof (cases "c = sep")
    case True
    with Cons show ?thesis by auto
  next
    case False
    obtain p ps where ps: "split sep s = p # ps"
      using split_nonempty[of sep s] by (cases "split sep s") auto
    with False Cons.prems have "g = c # p \<or> g \<in> set ps" by simp
    then show ?thesis
    proof
      assume "g = c # p"
      moreover have "set p \<subseteq> set s" using Cons.IH[of p] ps by simp
      ultimately show ?thesis by auto
    next
      assume "g \<in> set ps"
      then have "set g \<subseteq> set s" using Cons.IH[of g] ps by simp
      then show ?thesis by auto
    qed
  qed
qed

lemma slice_loop_eq:
  "slice_loop i n sel gids =
     (if \<exists>gid \<in> set gids. gid_int gid = None then Inl ValueError
      else Inr (sel \<union> {gid \<in> set gids. \<exists>k. gid_int gid = Some k \<and> k mod n = i}))"
proof (induction gids arbitrary: sel)
  case Nil
  show ?case by simp
next
  case (Cons gid gids)
  show ?case
  proof (cases "gid_int gid")
    case None
    then show ?thesis by simp
  next
    case (Some k)
    then show ?thesis by (auto simp: Cons.IH)
  qed
qed

lemma decode_token_literal:
  "CHR '':'' \<notin> set g \<Longrightarrow> decode_token genomes sel g = Inr (insert g sel)"
  by (simp add: decode_token_def)

lemma decode_token_slice:
  assumes "split (CHR '':'') g = [a, b]" "py_int a = Some i" "py_int b = Some n"
  shows "decode_token genomes sel g =
     (if 0 \<le> i \<and> i < n then slice_loop i n sel genomes else Inl AssertionError)"
proof -
  have "CHR '':'' \<in> set g"
  proof (rule ccontr)
    assume "CHR '':'' \<notin> set g"
    then have "split (CHR '':'') g = [g]" by (rule split_absent)
    with assms(1) show False by simp
  qed
  with assms show ?thesis by (simp add: decode_token_def)
qed

lemma decode_token_bad_catalog:
  assumes "CHR '':'' \<in> set g" "gid \<in> set genomes" "gid_int gid = None"
  shows "\<exists>e. decode_token genomes sel g = Inl e"
proof -
  have "slice_loop i n sel genomes = Inl ValueError" for i n
    using assms(2,3) by (auto simp: slice_loop_eq)
  then show ?thesis
    using assms(1)
    by (auto simp: decode_token_def split: list.splits option.splits)
qed

lemma decode_tokens_bad_catalog:
  assumes "g \<in> set toks" "CHR '':'' \<in> set g" "gid \<in> set genomes" "gid_int gid = None"
  shows "\<exists>e t. t \<in> set toks \<and> decode_tokens genomes sel toks = Inl (e, t)"
  using assms(1)
proof (induction toks arbitrary: sel)
  case Nil
  then show ?case by simp
next
  case (Cons t toks)
  show ?case
  proof (cases "decode_token genomes sel t")
    case (Inl e)
    then show ?thesis by auto
  next
    case (Inr sel')
    with decode_token_bad_catalog[OF assms(2,3,4), of sel] have "t \<noteq> g" by auto
    with Cons.prems have "g \<in> set toks" by simp
    from Cons.IH[OF this, of sel'] Inr show ?thesis by auto
  qed
qed

lemma select_genomes_tokens:
  "CHR '':'' \<in> set expr \<Longrightarrow>
     select_genomes expr genomes = decode_tokens genomes {} (split (CHR '','') expr)"
  using upper_ALL_no_colon[of expr] by (auto simp: select_genomes_def)

lemma finite_slice: "finite {gid \<in> set genomes. P gid}"
  by simp

lemma decode_single_slice:
  assumes "args_genomes args = Some g" and "CHR '','' \<notin> set g"
    and "split (CHR '':'') g = [a, b]" and "py_int a = Some i" and "py_int b = Some n"
  shows "decode_genomes_arg args genomes w =
     (if 0 \<le> i \<and> i < n then
        (if \<exists>gid \<in> set genomes. gid_int gid = None then
           (Inl ValueError,
            tsprint (''ERROR:  Genomes argument is not a list of genome ids or slices: '' @ g) w)
         else
           (Inr (sorted_list_of_set
                   {gid \<in> set genomes. \<exists>k. gid_int gid = Some k \<and> k mod n = i}), w))
      else
        (Inl AssertionError,
         tsprint (''ERROR:  Genomes argument is not a list of genome ids or slices: '' @ g) w))"
proof -
  have colon: "CHR '':'' \<in> set g"
  proof (rule ccontr)
    assume "CHR '':'' \<notin> set g"
    then have "split (CHR '':'') g = [g]" by (rule split_absent)
    with assms(3) show False by simp
  qed
  have sel: "select_genomes g genomes =
      (case decode_token genomes {} g of Inl e \<Rightarrow> Inl (e, g) | Inr s \<Rightarrow> Inr s)"
    using assms(2) by (simp add: select_genomes_tokens[OF colon] split_absent split: sum.splits)
  note tok = decode_token_slice[OF assms(3,4,5), of genomes "{}"]
  show ?thesis
    using assms(1) by (simp add: decode_genomes_arg_def sel tok slice_loop_eq)
qed

text \<open>
  Claim C5, as amended. For a selection expression that is one slice token \<open>i:n\<close> (no
  comma, one colon, both parts integers for Python's \<^verbatim>\<open>int\<close>) with \<open>0 \<le> i < n\<close>: when
  every id of the catalog yields an integer, \<^verbatim>\<open>decode_genomes_arg\<close> returns a list that
  holds a genome id if and only if the id is in the catalog and its integer satisfies
  \<open>id mod n = i\<close>; when some id of the catalog yields no integer, there is no resolved
  set: the call raises \<^verbatim>\<open>ValueError\<close> after printing the token, whatever the other ids
  are. When \<open>0 \<le> i < n\<close> is violated the token is rejected with the assertion's error,
  after the token has been printed.
\<close>

theorem slice_token_membership:
  assumes "args_genomes args = Some g" and "CHR '','' \<notin> set g"
    and "split (CHR '':'') g = [a, b]" and "py_int a = Some i" and "py_int b = Some n"
  shows "(0 \<le> i \<and> i < n \<and> (\<forall>gid \<in> set genomes. gid_int gid \<noteq> None) \<longrightarrow>
           (\<exists>res. decode_genomes_arg args genomes w = (Inr res, w) \<and>
              (\<forall>gid. gid \<in> set res \<longleftrightarrow>
                 gid \<in> set genomes \<and> (\<exists>k. gid_int gid = Some k \<and> k mod n = i)))) \<and>
         (0 \<le> i \<and> i < n \<and> (\<exists>gid \<in> set genomes. gid_int gid = None) \<longrightarrow>
           decode_genomes_arg args genomes w =
             (Inl ValueError,
              tsprint (''ERROR:  Genomes argument is not a list of genome ids or slices: '' @ g) w)) \<and>
         (\<not> (0 \<le> i \<and> i < n) \<longrightarrow>
           decode_genomes_arg args genomes w =
             (Inl AssertionError,
              tsprint (''ERROR:  Genomes argument is not a list of genome ids or slices: '' @ g) w))"
proof (intro conjI impI)
  assume a: "0 \<le> i \<and> i < n \<and> (\<forall>gid \<in> set genomes. gid_int gid \<noteq> None)"
  let ?S = "{gid \<in> set genomes. \<exists>k. gid_int gid = Some k \<and> k mod n = i}"
  from a have "decode_genomes_arg args genomes w = (Inr (sorted_list_of_set ?S), w)"
    by (simp add: decode_single_slice[OF assms])
  moreover have "set (sorted_list_of_set ?S) = ?S"
    by (simp del: set_filter)
  ultimately show "\<exists>res. decode_genomes_arg args genomes w = (Inr res, w) \<and>
            (\<forall>gid. gid \<in> set res \<longleftrightarrow>
               gid \<in> set genomes \<and> (\<exists>k. gid_int gid = Some k \<and> k mod n = i))"
    by (intro exI[of _ "sorted_list_of_set ?S"]) (simp del: sorted_list_of_set.set_sorted_key_list_of_set)
next
  assume "0 \<le> i \<and> i < n \<and> (\<exists>gid \<in> set genomes. gid_int gid = None)"
  then show "decode_genomes_arg args genomes w =
           (Inl ValueError,
            tsprint (''ERROR:  Genomes argument is not a list of genome ids or slices: '' @ g) w)"
    unfolding decode_single_slice[OF assms] by auto
next
  assume "\<not> (0 \<le> i \<and> i < n)"
  then show "decode_genomes_arg args genomes w =
           (Inl AssertionError,
            tsprint (''ERROR:  Genomes argument is not a list of genome ids or slices: '' @ g) w)"
    unfolding decode_single_slice[OF assms] by auto
qed

lemma slice_expr_parts:
  "CHR '','' \<notin> set (str_nat i @ '':'' @ str_nat n) \<and>
   split (CHR '':'') (str_nat i @ '':'' @ str_nat n) = [str_nat i, str_nat n]"
proof -
  have q: "c \<noteq> CHR '','' \<and> c \<noteq> CHR '':''" if "plain c" for c
  proof -
    from that obtain d where "d < 10" "c = digit_char d" by (auto simp: plain_def)
    with digit_char_plain[of d] show ?thesis by simp
  qed
  have p: "CHR '','' \<notin> set (str_nat m) \<and> CHR '':'' \<notin> set (str_nat m)" for m
  proof (intro conjI notI)
    assume "CHR '','' \<in> set (str_nat m)"
    then have "plain (CHR '','')" using str_nat_plain[of m] by blast
    with q show False by blast
  next
    assume "CHR '':'' \<in> set (str_nat m)"
    then have "plain (CHR '':'')" using str_nat_plain[of m] by blast
    with q show False by blast
  qed
  have "split (CHR '':'') (str_nat i @ CHR '':'' # str_nat n) = str_nat i # split (CHR '':'') (str_nat n)"
    using p by (intro split_append) simp
  with p show ?thesis by (simp add: split_absent)
qed

text \<open>
  Claim C4. For every catalog whose genome ids all yield an integer and every modulus
  \<open>n > 0\<close>, each of the \<open>n\<close> expressions \<open>i:n\<close> (\<open>i\<close> and \<open>n\<close> written in decimal, \<open>i\<close> from
  \<open>0\<close> to \<open>n - 1\<close>) resolves; the union of the \<open>n\<close> resolved sets is the set of all ids of the
  catalog, and the resolved sets of two different \<open>i\<close> are disjoint.
\<close>

theorem slices_partition_catalog:
  assumes "\<forall>gid \<in> set genomes. gid_int gid \<noteq> None" and "0 < n"
  shows "\<exists>R. (\<forall>i<n. decode_genomes_arg
                       (args\<lparr>args_genomes := Some (str_nat i @ '':'' @ str_nat n)\<rparr>) genomes w =
                     (Inr (R i), w)) \<and>
              (\<Union>i<n. set (R i)) = set genomes \<and>
              (\<forall>i<n. \<forall>j<n. i \<noteq> j \<longrightarrow> set (R i) \<inter> set (R j) = {})"
proof -
  define S where "S i = {gid \<in> set genomes. \<exists>k. gid_int gid = Some k \<and> k mod int n = int i}" for i
  define R where "R i = sorted_list_of_set (S i)" for i
  have fin: "finite (S i)" for i by (simp add: S_def)
  have setR: "set (R i) = S i" for i by (simp add: R_def fin)
  have dec: "decode_genomes_arg (args\<lparr>args_genomes := Some (str_nat i @ '':'' @ str_nat n)\<rparr>)
      genomes w = (Inr (R i), w)" if "i < n" for i
  proof -
    let ?g = "str_nat i @ '':'' @ str_nat n"
    have "decode_genomes_arg (args\<lparr>args_genomes := Some ?g\<rparr>) genomes w =
      (if 0 \<le> int i \<and> int i < int n then
        (if \<exists>gid \<in> set genomes. gid_int gid = None then
           (Inl ValueError,
            tsprint (''ERROR:  Genomes argument is not a list of genome ids or slices: '' @ ?g) w)
         else
           (Inr (sorted_list_of_set
                   {gid \<in> set genomes. \<exists>k. gid_int gid = Some k \<and> k mod int n = int i}), w))
      else
        (Inl AssertionError,
         tsprint (''ERROR:  Genomes argument is not a list of genome ids or slices: '' @ ?g) w))"
      using slice_expr_parts[of i n]
      by (intro decode_single_slice[where a = "str_nat i" and b = "str_nat n"])
         (simp_all add: py_int_str_nat)
    with that assms(1) show ?thesis by (simp add: R_def S_def)
  qed
  have cover: "(\<Union>i<n. S i) = set genomes"
  proof (intro set_eqI iffI)
    fix gid assume "gid \<in> (\<Union>i<n. S i)"
    then show "gid \<in> set genomes" by (auto simp: S_def)
  next
    fix gid assume g: "gid \<in> set genomes"
    with assms(1) obtain k where k: "gid_int gid = Some k" by auto
    let ?i = "nat (k mod int n)"
    have "0 \<le> k mod int n" "k mod int n < int n" using assms(2) by simp_all
    then have "?i < n" "int ?i = k mod int n" by simp_all
    with g k have "gid \<in> S ?i" by (simp add: S_def)
    with \<open>?i < n\<close> show "gid \<in> (\<Union>i<n. S i)" by blast
  qed
  have disj: "S i \<inter> S j = {}" if "i \<noteq> j" for i j
    using that by (auto simp: S_def)
  show ?thesis
    using dec cover disj by (intro exI[of _ R]) (simp add: setR)
qed

text \<open>
  Claim C10. The integer that decides slice membership is \<^verbatim>\<open>int\<close> of the id with every
  occurrence of \<^verbatim>\<open>GUT_GENOME\<close> deleted: the loop of a slice token over the catalog adds
  exactly the ids whose integer is \<open>i\<close> modulo \<open>n\<close>, and raises \<^verbatim>\<open>ValueError\<close> as soon as
  one id of the catalog does not yield an integer, instead of skipping it. Hence for
  every selection expression with a token that holds a colon, and every catalog with an
  id that yields no integer, \<^verbatim>\<open>decode_genomes_arg\<close> raises, after printing a token of the
  expression.
\<close>

theorem unparsable_id_fails:
  "slice_loop i n sel gids =
     (if \<exists>gid \<in> set gids. py_int (replace ''GUT_GENOME'' [] gid) = None then Inl ValueError
      else Inr (sel \<union> {gid \<in> set gids.
                  \<exists>k. py_int (replace ''GUT_GENOME'' [] gid) = Some k \<and> k mod n = i})) \<and>
   (args_genomes args = Some expr \<and> g \<in> set (split (CHR '','') expr) \<and> CHR '':'' \<in> set g \<and>
    gid \<in> set genomes \<and> py_int (replace ''GUT_GENOME'' [] gid) = None \<longrightarrow>
      (\<exists>e t. t \<in> set (split (CHR '','') expr) \<and>
         decode_genomes_arg args genomes w =
           (Inl e,
            tsprint (''ERROR:  Genomes argument is not a list of genome ids or slices: '' @ t) w)))"
proof (intro conjI impI)
  show "slice_loop i n sel gids =
     (if \<exists>gid \<in> set gids. py_int (replace ''GUT_GENOME'' [] gid) = None then Inl ValueError
      else Inr (sel \<union> {gid \<in> set gids.
                  \<exists>k. py_int (replace ''GUT_GENOME'' [] gid) = Some k \<and> k mod n = i}))"
    using slice_loop_eq[of i n sel gids] by (simp add: gid_int_def)
next
  assume a: "args_genomes args = Some expr \<and> g \<in> set (split (CHR '','') expr) \<and>
    CHR '':'' \<in> set g \<and> gid \<in> set genomes \<and> py_int (replace ''GUT_GENOME'' [] gid) = None"
  then have "CHR '':'' \<in> set expr" using split_subset[of g "CHR '',''" expr] by auto
  then have sel: "select_genomes expr genomes = decode_tokens genomes {} (split (CHR '','') expr)"
    by (rule select_genomes_tokens)
  from a have "gid_int gid = None" by (simp add: gid_int_def)
  with a obtain e t where "t \<in> set (split (CHR '','') expr)"
    "decode_tokens genomes {} (split (CHR '','') expr) = Inl (e, t)"
    using decode_tokens_bad_catalog[of g "split (CHR '','') expr" gid genomes "{}"] by blast
  with a sel show "\<exists>e t. t \<in> set (split (CHR '','') expr) \<and>
         decode_genomes_arg args genomes w =
           (Inl e,
            tsprint (''ERROR:  Genomes argument is not a list of genome ids or slices: '' @ t) w)"
    by (auto simp: decode_genomes_arg_def)
qed

theorem slice_token_membership_witness:
  "(\<exists>res.
      decode_genomes_arg
        \<lparr>args_genomes = Some ''1:3'', args_force = False, args_debug = False,
          args_zzz_slave_mode = False, args_zzz_slave_toc = None,
          args_zzz_slave_marker_genes_hmm = None\<rparr>
        [''GUT_GENOME000001'', ''GUT_GENOME000004'', ''GUT_GENOME000006'']
        \<lparr>files = Map.empty, dirs = {}, trace = []\<rparr> =
        (Inr res, \<lparr>files = Map.empty, dirs = {}, trace = []\<rparr>) \<and>
      ''GUT_GENOME000004'' \<in> set res \<and> ''GUT_GENOME000006'' \<notin> set res) \<and>
   decode_genomes_arg
     \<lparr>args_genomes = Some ''1:3'', args_force = False, args_debug = False,
       args_zzz_slave_mode = False, args_zzz_slave_toc = None,
       args_zzz_slave_marker_genes_hmm = None\<rparr>
     [''GUT_GENOME000001'', ''MGYG000000004'']
     \<lparr>files = Map.empty, dirs = {}, trace = []\<rparr> =
     (Inl ValueError,
      \<lparr>files = Map.empty, dirs = {},
        trace = [Tsprint ''ERROR:  Genomes argument is not a list of genome ids or slices: 1:3'']\<rparr>) \<and>
   decode_genomes_arg
     \<lparr>args_genomes = Some ''3:3'', args_force = False, args_debug = False,
       args_zzz_slave_mode = False, args_zzz_slave_toc = None,
       args_zzz_slave_marker_genes_hmm = None\<rparr>
     [''GUT_GENOME000001'', ''GUT_GENOME000004'', ''GUT_GENOME000006'']
     \<lparr>files = Map.empty, dirs = {}, trace = []\<rparr> =
     (Inl AssertionError,
      \<lparr>files = Map.empty, dirs = {},
        trace = [Tsprint ''ERROR:  Genomes argument is not a list of genome ids or slices: 3:3'']\<rparr>)"
proof -
  let ?gs = "[''GUT_GENOME000001'', ''GUT_GENOME000004'', ''GUT_GENOME000006'']"
  let ?bad = "[''GUT_GENOME000001'', ''MGYG000000004'']"
  let ?w = "\<lparr>files = Map.empty, dirs = {}, trace = []\<rparr>"
  let ?A = "\<lambda>e. \<lparr>args_genomes = Some e, args_force = False, args_debug = False,
          args_zzz_slave_mode = False, args_zzz_slave_toc = None,
          args_zzz_slave_marker_genes_hmm = None\<rparr>"
  have i1: "py_int ''1'' = Some 1" and i3: "py_int ''3'' = Some 3"
    by (simp_all add: py_int_def py_literal_def strip_def is_space_def digit_of_def)
  have ids: "gid_int ''GUT_GENOME000001'' = Some 1" "gid_int ''GUT_GENOME000004'' = Some 4"
    "gid_int ''GUT_GENOME000006'' = Some 6" "gid_int ''MGYG000000004'' = None"
    by (simp_all add: gid_int_def py_int_def py_literal_def strip_def is_space_def digit_of_def)
  have a: "(0::int) \<le> 1 \<and> (1::int) < 3 \<and> (\<forall>gid \<in> set ?gs. gid_int gid \<noteq> None)"
    using ids by simp
  from slice_token_membership[of "?A ''1:3''" "''1:3''" "''1''" "''3''" 1 3 ?gs ?w] i1 i3 a
  obtain res where r: "decode_genomes_arg (?A ''1:3'') ?gs ?w = (Inr res, ?w)"
    "\<forall>gid. gid \<in> set res \<longleftrightarrow> gid \<in> set ?gs \<and> (\<exists>k. gid_int gid = Some k \<and> k mod 3 = 1)"
    by auto
  from r(2) ids have "''GUT_GENOME000004'' \<in> set res \<and> ''GUT_GENOME000006'' \<notin> set res"
    by simp
  moreover have "decode_genomes_arg (?A ''1:3'') ?bad ?w =
     (Inl ValueError,
      tsprint (''ERROR:  Genomes argument is not a list of genome ids or slices: '' @ ''1:3'') ?w)"
    using slice_token_membership[of "?A ''1:3''" "''1:3''" "''1''" "''3''" 1 3 ?bad ?w] i1 i3
    by (simp add: ids)
  moreover have "decode_genomes_arg (?A ''3:3'') ?gs ?w =
     (Inl AssertionError,
      tsprint (''ERROR:  Genomes argument is not a list of genome ids or slices: '' @ ''3:3'') ?w)"
    using slice_token_membership[of "?A ''3:3''" "''3:3''" "''3''" "''3''" 3 3 ?gs ?w] i3
    by simp
  ultimately show ?thesis using r(1) by (auto simp: tsprint_def)
qed

text \<open>
  The claim as first worded promised membership for every catalog. With the token \<open>1:2\<close>
  and a catalog that holds \<open>GUT_GENOME000001\<close>, whose integer is \<open>1\<close> and \<open>1 mod 2 = 1\<close>,
  and one id that yields no integer, no set is resolved: the call raises.
\<close>

theorem slice_token_membership_counterexample:
  "''GUT_GENOME000001'' \<in> set [''GUT_GENOME000001'', ''MGYG1''] \<and>
   gid_int ''GUT_GENOME000001'' = Some 1 \<and> (1::int) mod 2 = 1 \<and>
   decode_genomes_arg
     \<lparr>args_genomes = Some ''1:2'', args_force = False, args_debug = False,
       args_zzz_slave_mode = False, args_zzz_slave_toc = None,
       args_zzz_slave_marker_genes_hmm = None\<rparr>
     [''GUT_GENOME000001'', ''MGYG1'']
     \<lparr>files = Map.empty, dirs = {}, trace = []\<rparr> =
     (Inl ValueError,
      \<lparr>files = Map.empty, dirs = {},
        trace = [Tsprint ''ERROR:  Genomes argument is not a list of genome ids or slices: 1:2'']\<rparr>)"
proof -
  have i: "py_int ''1'' = Some 1" "py_int ''2'' = Some 2"
    by (simp_all add: py_int_def py_literal_def strip_def is_space_def digit_of_def)
  have ids: "gid_int ''GUT_GENOME000001'' = Some 1" "gid_int ''MGYG1'' = None"
    by (simp_all add: gid_int_def py_int_def py_literal_def strip_def is_space_def digit_of_def)
  have "decode_genomes_arg
     \<lparr>args_genomes = Some ''1:2'', args_force = False, args_debug = False,
       args_zzz_slave_mode = False, args_zzz_slave_toc = None,
       args_zzz_slave_marker_genes_hmm = None\<rparr>
     [''GUT_GENOME000001'', ''MGYG1'']
     \<lparr>files = Map.empty, dirs = {}, trace = []\<rparr> =
     (Inl ValueError,
      tsprint (''ERROR:  Genomes argument is not a list of genome ids or slices: '' @ ''1:2'')
        \<lparr>files = Map.empty, dirs = {}, trace = []\<rparr>)"
    using i ids
    by (subst decode_single_slice[where a = "''1''" and b = "''2''" and i = 1 and n = 2]) simp_all
  with ids show ?thesis by (simp add: tsprint_def)
qed

theorem slices_partition_catalog_witness:
  "\<exists>R. (\<forall>i<2. decode_genomes_arg
                  \<lparr>args_genomes = Some (str_nat i @ '':'' @ str_nat 2), args_force = False,
                    args_debug = False, args_zzz_slave_mode = False, args_zzz_slave_toc = None,
                    args_zzz_slave_marker_genes_hmm = None\<rparr>
                  [''GUT_GENOME000001'', ''GUT_GENOME000004'', ''GUT_GENOME000006'']
                  \<lparr>files = Map.empty, dirs = {}, trace = []\<rparr> =
                (Inr (R i), \<lparr>files = Map.empty, dirs = {}, trace = []\<rparr>)) \<and>
        (\<Union>i<2. set (R i)) = {''GUT_GENOME000001'', ''GUT_GENOME000004'', ''GUT_GENOME000006''} \<and>
        (\<forall>i<2. \<forall>j<2. i \<noteq> j \<longrightarrow> set (R i) \<inter> set (R j) = {})"
proof -
  let ?gs = "[''GUT_GENOME000001'', ''GUT_GENOME000004'', ''GUT_GENOME000006'']"
  have ids: "gid_int ''GUT_GENOME000001'' = Some 1" "gid_int ''GUT_GENOME000004'' = Some 4"
    "gid_int ''GUT_GENOME000006'' = Some 6"
    by (simp_all add: gid_int_def py_int_def py_literal_def strip_def is_space_def digit_of_def)
  then have a: "\<forall>gid \<in> set ?gs. gid_int gid \<noteq> None" by simp
  have b: "(0::nat) < 2" by simp
  show ?thesis
    using slices_partition_catalog[OF a b,
        of "\<lparr>args_genomes = None, args_force = False,
              args_debug = False, args_zzz_slave_mode = False, args_zzz_slave_toc = None,
              args_zzz_slave_marker_genes_hmm = None\<rparr>"
           "\<lparr>files = Map.empty, dirs = {}, trace = []\<rparr>"]
    by simp
qed

theorem unparsable_id_fails_witness:
  "slice_loop 0 2 {} [''GUT_GENOME000002'', ''MGYG000001''] = Inl ValueError \<and>
   (\<exists>e t. t \<in> set (split (CHR '','') ''GUT_GENOME000002,0:2'') \<and>
      decode_genomes_arg
        \<lparr>args_genomes = Some ''GUT_GENOME000002,0:2'', args_force = False, args_debug = False,
          args_zzz_slave_mode = False, args_zzz_slave_toc = None,
          args_zzz_slave_marker_genes_hmm = None\<rparr>
        [''GUT_GENOME000002'', ''MGYG000001'']
        \<lparr>files = Map.empty, dirs = {}, trace = []\<rparr> =
        (Inl e,
         tsprint (''ERROR:  Genomes argument is not a list of genome ids or slices: '' @ t)
           \<lparr>files = Map.empty, dirs = {}, trace = []\<rparr>))"
proof -
  let ?gs = "[''GUT_GENOME000002'', ''MGYG000001'']"
  let ?w = "\<lparr>files = Map.empty, dirs = {}, trace = []\<rparr>"
  let ?args = "\<lparr>args_genomes = Some ''GUT_GENOME000002,0:2'', args_force = False,
          args_debug = False, args_zzz_slave_mode = False, args_zzz_slave_toc = None,
          args_zzz_slave_marker_genes_hmm = None\<rparr>"
  have bad: "py_int (replace ''GUT_GENOME'' [] ''MGYG000001'') = None"
    by (simp add: py_int_def py_literal_def strip_def is_space_def digit_of_def)
  have tok: "''0:2'' \<in> set (split (CHR '','') ''GUT_GENOME000002,0:2'')" by simp
  note T = unparsable_id_fails[of 0 2 "{}" ?gs ?args "''GUT_GENOME000002,0:2''" "''0:2''"
      "''MGYG000001''" ?gs ?w]
  have one: "slice_loop 0 2 {} ?gs = Inl ValueError"
    using T bad by auto
  have hyp: "args_genomes ?args = Some ''GUT_GENOME000002,0:2'' \<and>
      ''0:2'' \<in> set (split (CHR '','') ''GUT_GENOME000002,0:2'') \<and> CHR '':'' \<in> set ''0:2'' \<and>
      ''MGYG000001'' \<in> set ?gs \<and> py_int (replace ''GUT_GENOME'' [] ''MGYG000001'') = None"
    using bad tok by simp
  from T hyp have "\<exists>e t. t \<in> set (split (CHR '','') ''GUT_GENOME000002,0:2'') \<and>
      decode_genomes_arg ?args ?gs ?w =
        (Inl e,
         tsprint (''ERROR:  Genomes argument is not a list of genome ids or slices: '' @ t) ?w)"
    by blast
  with one show ?thesis by blast
qed

subsection \<open>The master skips completed work; the worker quarantines a failed search\<close>

text \<open>
  Claim C7. For a genome of the catalog whose completion marker exists at its
  destination, with \<^verbatim>\<open>--force\<close> not set, \<^verbatim>\<open>genome_work\<close> returns normally after two
  calls only: the look-up of the marker and the note that the destination exists. It
  uploads nothing and starts no command (so no worker), and it leaves every file, remote
  or local, and every directory as it was.
\<close>

theorem genome_work_skip:
  assumes "map_of species_for_genome genome_id = Some species_id"
    and "files w (destpath P genome_id species_id (lastoutput genome_id)) \<noteq> None"
    and "\<not> args_force args"
  shows "\<exists>w'. genome_work env P args species_for_genome local_toc marker_genes_hmm genome_id w =
           (Inr (), w') \<and>
         files w' = files w \<and> dirs w' = dirs w \<and>
         trace w' = trace w @
           [FindFiles (destpath P genome_id species_id (lastoutput genome_id)) True,
            Tsprint (''Destination '' @ destpath P genome_id species_id (lastoutput genome_id) @
                     '' for genome '' @ genome_id @
                     '' already exists.  Specify --force to overwrite.'')]"
  using assms
  by (simp add: genome_work_def find_files_with_retry_def find_files_def tsprint_def Let_def)

lemma hmmsearch_cases:
  "hmmsearch env P genome_id species_id marker_genes_hmm num_threads w =
     (let p = input_annotations_file P genome_id species_id (genome_id @ ''.faa.lz4'');
          f = genome_id @ ''.hmmsearch'';
          cmd = hmmsearch_cmd num_threads f marker_genes_hmm (local_copy env p)
      in
        (case files w p of
           None \<Rightarrow> (Inl DownloadError, w\<lparr>trace := trace w @ [Download p False]\<rparr>)
         | Some c \<Rightarrow>
             if \<not> succeeds env (length (trace w))
             then (Inl DownloadError, w\<lparr>trace := trace w @ [Download p False]\<rparr>)
             else
               (let fs1 = (files w)(local_copy env p \<mapsto> c) in
                  if fs1 f \<noteq> None then
                    (Inr f,
                     w\<lparr>files := fs1,
                       trace := trace w @
                         [Download p True, FindFiles f True,
                          Tsprint (''Found hmmsearch results for genome '' @ genome_id @
                                   '' from prior run.'')]\<rparr>)
                  else if succeeds env (length (trace w) + 2) \<and> fs1 marker_genes_hmm \<noteq> None \<and>
                          fs1 (local_copy env p) \<noteq> None
                  then
                    (Inr f,
                     w\<lparr>files := fs1(f \<mapsto> tool_report env cmd),
                       trace := trace w @ [Download p True, FindFiles f False, Command cmd True]\<rparr>)
                  else
                    (Inl CommandError,
                     w\<lparr>files := (case tool_partial env cmd of
                                    None \<Rightarrow> fs1
                                  | Some t \<Rightarrow> fs1(f := None, f @ ''.bogus'' \<mapsto> t)),
                       trace := trace w @
                         [Download p True, FindFiles f False, Command cmd False,
                          Command (''mv '' @ f @ '' '' @ f @ ''.bogus'')
                            (tool_partial env cmd \<noteq> None)]\<rparr>))))"
  by (auto simp: hmmsearch_def seq_def download_reference_def find_files_def command_def
        run_hmmsearch_def sh_mv_def tsprint_def Let_def
      split: option.splits)

lemma mv_not_search: "\<not> prefix ''hmmsearch '' (''mv '' @ rest)"
  by simp

lemma search_cmd_prefix: "prefix ''hmmsearch '' (hmmsearch_cmd n f h a)"
  by (simp add: hmmsearch_cmd_def)

text \<open>
  Claim C8. When the run of the external search tool fails, \<^verbatim>\<open>hmmsearch\<close> raises the
  failure to its caller; the tool was started once and the only call after it is the
  \<^verbatim>\<open>mv\<close> of the report to the name with the suffix \<^verbatim>\<open>.bogus\<close>. Afterwards no file stands
  under the name of the report, so that \<^verbatim>\<open>find_files\<close> of a later run does not find one,
  and what the tool had left is under the quarantined name.
\<close>

theorem hmmsearch_failure_quarantined:
  assumes run: "hmmsearch env P genome_id species_id marker_genes_hmm num_threads w = (r, w')"
    and new: "trace w' = trace w @ new"
    and fail: "Command c False \<in> set new"
    and tool: "prefix ''hmmsearch '' c"
  shows "r = Inl CommandError \<and>
         files w' (genome_id @ ''.hmmsearch'') = None \<and>
         \<not> fst (find_files (genome_id @ ''.hmmsearch'') w') \<and>
         (\<forall>t. tool_partial env c = Some t \<longrightarrow>
            files w' (genome_id @ ''.hmmsearch.bogus'') = Some t) \<and>
         (\<exists>p. new =
            [Download p True,
             FindFiles (genome_id @ ''.hmmsearch'') False,
             Command c False,
             Command (''mv '' @ genome_id @ ''.hmmsearch '' @ genome_id @ ''.hmmsearch.bogus'')
               (tool_partial env c \<noteq> None)])"
proof -
  define p where "p = input_annotations_file P genome_id species_id (genome_id @ ''.faa.lz4'')"
  define f where "f = genome_id @ ''.hmmsearch''"
  define cmd where "cmd = hmmsearch_cmd num_threads f marker_genes_hmm (local_copy env p)"
  note cases = run[unfolded hmmsearch_cases Let_def, folded p_def f_def, folded cmd_def]
  have nm: "\<not> prefix ''hmmsearch '' (''mv '' @ f @ '' '' @ f @ ''.bogus'')"
    by (rule mv_not_search)
  show ?thesis
  proof (cases "files w p")
    case None
    with cases new fail show ?thesis by auto
  next
    case (Some content)
    show ?thesis
    proof (cases "succeeds env (length (trace w))")
      case False
      with Some cases new fail show ?thesis by auto
    next
      case True
      define fs1 where "fs1 = (files w)(local_copy env p \<mapsto> content)"
      show ?thesis
      proof (cases "fs1 f \<noteq> None")
        case found: True
        with Some True cases new fail show ?thesis
          unfolding fs1_def by auto
      next
        case absent: False
        show ?thesis
        proof (cases "succeeds env (length (trace w) + 2) \<and> fs1 marker_genes_hmm \<noteq> None \<and>
                          fs1 (local_copy env p) \<noteq> None")
          case ok: True
          with Some True absent cases new fail show ?thesis
            unfolding fs1_def by auto
        next
          case failed: False
          from Some True absent failed cases
          have r: "r = Inl CommandError"
            and w': "w' = w\<lparr>files := (case tool_partial env cmd of
                                    None \<Rightarrow> fs1
                                  | Some t \<Rightarrow> fs1(f := None, f @ ''.bogus'' \<mapsto> t)),
                       trace := trace w @
                         [Download p True, FindFiles f False, Command cmd False,
                          Command (''mv '' @ f @ '' '' @ f @ ''.bogus'')
                            (tool_partial env cmd \<noteq> None)]\<rparr>"
            unfolding fs1_def by auto
          from w' new have n: "new = [Download p True, FindFiles f False, Command cmd False,
                          Command (''mv '' @ f @ '' '' @ f @ ''.bogus'')
                            (tool_partial env cmd \<noteq> None)]"
            by simp
          with fail tool nm have c: "c = cmd" by auto
          from absent have "fs1 f = None" by simp
          then have gone: "files w' f = None"
            unfolding w' by (simp split: option.splits)
          have kept: "files w' (f @ ''.bogus'') = Some t" if "tool_partial env cmd = Some t" for t
            unfolding w' using that by simp
          from gone have nf: "\<not> fst (find_files f w')" by (simp add: find_files_def)
          from r gone nf kept n c show ?thesis
            unfolding f_def by auto
        qed
      qed
    qed
  qed
qed

subsection \<open>Witnesses on example inputs\<close>

theorem hmmsearch_failure_quarantined_witness:
  "fst (hmmsearch (demo_env\<lparr>succeeds := (\<lambda>k. k \<noteq> 2)\<rparr>) demo_params ''G1'' ''s1'' ''hmm'' 1
          demo_store) = Inl CommandError \<and>
   files (snd (hmmsearch (demo_env\<lparr>succeeds := (\<lambda>k. k \<noteq> 2)\<rparr>) demo_params ''G1'' ''s1'' ''hmm'' 1
          demo_store)) ''G1.hmmsearch'' = None \<and>
   files (snd (hmmsearch (demo_env\<lparr>succeeds := (\<lambda>k. k \<noteq> 2)\<rparr>) demo_params ''G1'' ''s1'' ''hmm'' 1
          demo_store)) ''G1.hmmsearch.bogus'' = Some [] \<and>
   trace (snd (hmmsearch (demo_env\<lparr>succeeds := (\<lambda>k. k \<noteq> 2)\<rparr>) demo_params ''G1'' ''s1'' ''hmm'' 1
          demo_store)) =
     [Download ''s3://igg/annot/s1/G1/G1.faa.lz4'' True, FindFiles ''G1.hmmsearch'' False,
      Command (hmmsearch_cmd 1 ''G1.hmmsearch'' ''hmm'' ''G1.faa.lz4'') False,
      Command ''mv G1.hmmsearch G1.hmmsearch.bogus'' True]"
proof -
  let ?E = "demo_env\<lparr>succeeds := (\<lambda>k. k \<noteq> 2)\<rparr>"
  let ?X = "hmmsearch ?E demo_params ''G1'' ''s1'' ''hmm'' 1 demo_store"
  let ?c = "hmmsearch_cmd 1 ''G1.hmmsearch'' ''hmm'' ''G1.faa.lz4''"
  have run: "?X = (fst ?X, snd ?X)" by simp
  have new: "trace (snd ?X) = trace demo_store @ trace (snd ?X)"
    by (simp add: demo_store_def)
  have fail: "Command ?c False \<in> set (trace (snd ?X))"
    by (simp add: hmmsearch_cases demo_env_def demo_params_def demo_store_def
        input_annotations_file_def Let_def)
  have tool: "prefix ''hmmsearch '' ?c" by (simp add: hmmsearch_cmd_def)
  have part: "tool_partial ?E ?c = Some []" by (simp add: demo_env_def)
  have tr: "trace (snd ?X) =
     [Download ''s3://igg/annot/s1/G1/G1.faa.lz4'' True, FindFiles ''G1.hmmsearch'' False,
      Command ?c False, Command ''mv G1.hmmsearch G1.hmmsearch.bogus'' True]"
    by (simp add: hmmsearch_cases demo_env_def demo_params_def demo_store_def
        input_annotations_file_def Let_def)
  from hmmsearch_failure_quarantined[OF run new fail tool] part tr
  show ?thesis by simp
qed

theorem genome_work_skip_witness:
  "\<exists>w'. genome_work demo_env demo_params (demo_args ''G1'') [(''G1'', ''s1''), (''G2'', ''s1'')]
          ''genomes.tsv'' ''phyeco.hmm'' ''G1''
          (demo_store\<lparr>files := (files demo_store)
             (''s3://igg/mg/temp/s1/G1/G1.markers.map.lz4'' \<mapsto> ''MAP'')\<rparr>) = (Inr (), w') \<and>
        files w' = (files demo_store)(''s3://igg/mg/temp/s1/G1/G1.markers.map.lz4'' \<mapsto> ''MAP'') \<and>
        dirs w' = {} \<and>
        trace w' =
          [FindFiles ''s3://igg/mg/temp/s1/G1/G1.markers.map.lz4'' True,
           Tsprint ''Destination s3://igg/mg/temp/s1/G1/G1.markers.map.lz4 for genome G1 already exists.  Specify --force to overwrite.'']"
proof -
  let ?cat = "[(''G1'', ''s1''), (''G2'', ''s1'')]"
  let ?w = "demo_store\<lparr>files := (files demo_store)
             (''s3://igg/mg/temp/s1/G1/G1.markers.map.lz4'' \<mapsto> ''MAP'')\<rparr>"
  have d: "destpath demo_params ''G1'' ''s1'' (lastoutput ''G1'') =
      ''s3://igg/mg/temp/s1/G1/G1.markers.map.lz4''"
    by (simp add: destpath_def output_marker_genes_file_def lastoutput_def demo_params_def)
  have a: "map_of ?cat ''G1'' = Some ''s1''" by simp
  have b: "files ?w (destpath demo_params ''G1'' ''s1'' (lastoutput ''G1'')) \<noteq> None"
    by (simp add: d)
  have c: "\<not> args_force (demo_args ''G1'')" by (simp add: demo_args_def)
  from genome_work_skip[OF a b c, of demo_env "''genomes.tsv''" "''phyeco.hmm''"]
  show ?thesis by (simp add: d demo_store_def)
qed

subsection \<open>Traces of the worker\<close>

lemma upload_trace:
  assumes "upload env check src dst w = (r, w')"
  shows "\<exists>b. trace w' = trace w @ [Upload src dst b] \<and> (check \<longrightarrow> (r = Inr ()) = b) \<and>
           (r = Inr () \<or> r = Inl UploadError)"
  using assms by (auto simp: upload_def split: option.splits if_splits)

lemma command_trace:
  assumes "command check cmd sem w = (r, w')"
  shows "\<exists>b. trace w' = trace w @ [Command cmd b] \<and> (r = Inr () \<or> r = Inl CommandError)"
  using assms by (auto simp: command_def split: prod.splits if_splits)

lemma hmmsearch_trace:
  assumes "hmmsearch env P genome_id species_id marker_genes_hmm num_threads w = (r, w')"
  shows "\<exists>evs. trace w' = trace w @ evs \<and> (\<forall>ev \<in> set evs. \<not> is_upload ev) \<and>
           (r = Inr (genome_id @ ''.hmmsearch'') \<or> r = Inl DownloadError \<or> r = Inl CommandError)"
  using assms unfolding hmmsearch_cases Let_def
  by (auto split: option.splits if_splits)

lemma fetch_genes_trace:
  assumes "fetch_genes env p w = (r, w')"
  shows "\<exists>b. trace w' = trace w @ [Fetch p b] \<and> r \<noteq> Inl AssertionError"
  using assms by (auto simp: fetch_genes_def split: option.splits if_splits)

lemma set_insert_at: "set (insert_at k x ys) = insert x (set ys)"
  by (induction k x ys rule: insert_at.induct) auto

lemma set_arrange: "set (arrange pick xs) = set xs"
  by (induction xs) (auto simp: set_insert_at)

lemma run_tasks_uploads:
  assumes "run_tasks (upload_star env) L w = (rs, w')"
  shows "\<exists>evs. trace w' = trace w @ evs \<and>
           (\<forall>ev \<in> set evs. \<exists>k s d b. ev = Upload s d b \<and> (k, (s, d)) \<in> set L) \<and>
           (raised rs = [] \<longrightarrow> (\<forall>k s d. (k, (s, d)) \<in> set L \<longrightarrow> Upload s d True \<in> set evs)) \<and>
           set (raised rs) \<subseteq> {UploadError}"
  using assms
proof (induction L arbitrary: w rs w')
  case Nil
  then show ?case by simp
next
  case (Cons t L)
  obtain k s d where t: "t = (k, (s, d))" by (cases t) auto
  obtain r w1 where us: "upload_star env (s, d) w = (r, w1)"
    by (cases "upload_star env (s, d) w")
  then have u: "upload env True s d w = (r, w1)" by (simp add: upload_star_def)
  obtain rs1 w2 where rest: "run_tasks (upload_star env) L w1 = (rs1, w2)"
    by (cases "run_tasks (upload_star env) L w1")
  from Cons.prems t us rest have rs: "rs = (k, r) # rs1" and w': "w' = w2"
    by simp_all
  from upload_trace[OF u] obtain b where
    b: "trace w1 = trace w @ [Upload s d b]" "(r = Inr ()) = b" "r = Inr () \<or> r = Inl UploadError"
    by auto
  from Cons.IH[OF rest] obtain evs where
    e: "trace w2 = trace w1 @ evs"
       "\<forall>ev \<in> set evs. \<exists>k s d b. ev = Upload s d b \<and> (k, (s, d)) \<in> set L"
       "raised rs1 = [] \<longrightarrow> (\<forall>k s d. (k, (s, d)) \<in> set L \<longrightarrow> Upload s d True \<in> set evs)"
       "set (raised rs1) \<subseteq> {UploadError}"
    by blast
  have errs: "set (raised rs) \<subseteq> {UploadError}"
    using rs b(3) e(4) by auto
  have tr: "trace w' = trace w @ (Upload s d b # evs)"
    using b(1) e(1) w' by simp
  have all: "\<forall>ev \<in> set (Upload s d b # evs). \<exists>k s d b. ev = Upload s d b \<and> (k, (s, d)) \<in> set (t # L)"
  proof
    fix ev assume "ev \<in> set (Upload s d b # evs)"
    then consider "ev = Upload s d b" | "ev \<in> set evs" by auto
    then show "\<exists>k s d b. ev = Upload s d b \<and> (k, (s, d)) \<in> set (t # L)"
    proof cases
      case 1
      with t show ?thesis by auto
    next
      case 2
      with e(2) obtain k' s' d' b' where "ev = Upload s' d' b'" "(k', (s', d')) \<in> set L"
        by blast
      then show ?thesis by auto
    qed
  qed
  have ok: "raised rs = [] \<longrightarrow>
      (\<forall>k' s' d'. (k', (s', d')) \<in> set (t # L) \<longrightarrow> Upload s' d' True \<in> set (Upload s d b # evs))"
  proof
    assume "raised rs = []"
    with rs b(3) have "r = Inr ()" "raised rs1 = []" by auto
    with b(2) e(3) t show
      "\<forall>k' s' d'. (k', (s', d')) \<in> set (t # L) \<longrightarrow> Upload s' d' True \<in> set (Upload s d b # evs)"
      by auto
  qed
  from tr all ok errs show ?case by blast
qed

lemma pool_uploads:
  assumes "multithreading_map env (upload_star env) tasks w = (r, w')"
  shows "\<exists>evs. trace w' = trace w @ evs \<and>
           (\<forall>ev \<in> set evs. \<exists>s d b. ev = Upload s d b \<and> (s, d) \<in> set tasks) \<and>
           ((\<exists>x. r = Inr x) \<longrightarrow> (\<forall>s d. (s, d) \<in> set tasks \<longrightarrow> Upload s d True \<in> set evs)) \<and>
           ((\<exists>x. r = Inr x) \<or> r = Inl UploadError)"
proof -
  let ?L = "arrange (sched env) (enumerate 0 tasks)"
  obtain rs w1 where run: "run_tasks (upload_star env) ?L w = (rs, w1)"
    by (cases "run_tasks (upload_star env) ?L w")
  have mem: "(\<exists>k. (k, t) \<in> set ?L) \<longleftrightarrow> t \<in> set tasks" for t
  proof
    assume "\<exists>k. (k, t) \<in> set ?L"
    then obtain k where "(k, t) \<in> set (enumerate 0 tasks)" by (auto simp: set_arrange)
    then have "k < length tasks" "tasks ! k = t" by (simp_all add: in_set_enumerate_eq)
    then show "t \<in> set tasks" by auto
  next
    assume "t \<in> set tasks"
    then obtain i where "i < length tasks" "tasks ! i = t" by (auto simp: in_set_conv_nth)
    then have "(i, t) \<in> set (enumerate 0 tasks)" by (simp add: in_set_enumerate_eq)
    then show "\<exists>k. (k, t) \<in> set ?L" by (auto simp: set_arrange)
  qed
  from run_tasks_uploads[OF run] obtain evs where
    e: "trace w1 = trace w @ evs"
       "\<forall>ev \<in> set evs. \<exists>k s d b. ev = Upload s d b \<and> (k, (s, d)) \<in> set ?L"
       "raised rs = [] \<longrightarrow> (\<forall>k s d. (k, (s, d)) \<in> set ?L \<longrightarrow> Upload s d True \<in> set evs)"
       "set (raised rs) \<subseteq> {UploadError}"
    by blast
  from assms run have w': "w' = w1" and r: "r = (case raised rs of e # es \<Rightarrow> Inl e
      | [] \<Rightarrow> Inr (returned (sort_key fst rs)))"
    by (auto simp: multithreading_map_def split: list.splits)
  have a: "\<forall>ev \<in> set evs. \<exists>s d b. ev = Upload s d b \<and> (s, d) \<in> set tasks"
    using e(2) mem by blast
  have b: "(\<exists>x. r = Inr x) \<longrightarrow> (\<forall>s d. (s, d) \<in> set tasks \<longrightarrow> Upload s d True \<in> set evs)"
  proof (intro impI allI)
    fix s d assume "\<exists>x. r = Inr x" and "(s, d) \<in> set tasks"
    then have "raised rs = []" using r by (auto split: list.splits)
    moreover from \<open>(s, d) \<in> set tasks\<close> obtain k where "(k, (s, d)) \<in> set ?L" using mem by blast
    ultimately show "Upload s d True \<in> set evs" using e(3) by blast
  qed
  have c: "(\<exists>x. r = Inr x) \<or> r = Inl UploadError"
    using r e(4) by (cases "raised rs") auto
  show ?thesis
    by (intro exI[of _ evs] conjI) (use e(1) w' a b c in simp_all)
qed

lemma write_markers_result:
  "fst (write_markers genes species_id genome_id hits o_seq o_map) = Inr () \<or>
   fst (write_markers genes species_id genome_id hits o_seq o_map) = Inl KeyError"
  by (induction hits arbitrary: o_seq o_map) (auto simp: Let_def split: option.splits)

lemma identify_trace:
  assumes "identify_marker_genes env P genome_id species_id marker_genes_hmm w = (r, w')"
  shows "\<exists>evs. trace w' = trace w @ evs \<and> (\<forall>ev \<in> set evs. \<not> is_upload ev) \<and>
           (\<forall>fs. r = Inr fs \<longrightarrow>
              fs = [genome_id @ ''.hmmsearch'', genome_id @ ''.markers.fa'',
                    genome_id @ ''.markers.map'']) \<and>
           r \<noteq> Inl AssertionError"
proof -
  let ?rm = "command True
            (''aws s3 rm --recursive '' @ output_marker_genes_file P genome_id species_id [])
            (aws_s3_rm env (output_marker_genes_file P genome_id species_id []))"
  obtain r1 w1 where c1: "?rm w = (r1, w1)" by (cases "?rm w")
  from command_trace[OF c1] obtain b1 where
    t1: "trace w1 = trace w @ [Command
            (''aws s3 rm --recursive '' @ output_marker_genes_file P genome_id species_id []) b1]"
    and e1: "r1 = Inr () \<or> r1 = Inl CommandError"
    by blast
  note run = assms[unfolded identify_marker_genes_def seq_def]
  show ?thesis
  proof (cases r1)
    case (Inl e)
    with run c1 e1 have "r = Inl CommandError" "w' = w1" by auto
    with t1 show ?thesis by auto
  next
    case Inr1: (Inr u)
    obtain r2 w2 where c2: "hmmsearch env P genome_id species_id marker_genes_hmm 1 w1 = (r2, w2)"
      by (cases "hmmsearch env P genome_id species_id marker_genes_hmm 1 w1")
    from hmmsearch_trace[OF c2] obtain evs2 where
      t2: "trace w2 = trace w1 @ evs2" and n2: "\<forall>ev \<in> set evs2. \<not> is_upload ev"
      and e2: "r2 = Inr (genome_id @ ''.hmmsearch'') \<or> r2 = Inl DownloadError \<or>
               r2 = Inl CommandError"
      by blast
    show ?thesis
    proof (cases r2)
      case (Inl e)
      with run c1 Inr1 c2 have "r = Inl e" "w' = w2" by auto
      with Inl e2 t1 t2 n2 show ?thesis by auto
    next
      case Inr2: (Inr f)
      with e2 have f: "f = genome_id @ ''.hmmsearch''" by auto
      let ?p = "input_annotations_file P genome_id species_id (genome_id @ ''.ffn.lz4'')"
      obtain r3 w3 where c3: "fetch_genes env ?p w2 = (r3, w3)"
        by (cases "fetch_genes env ?p w2")
      from fetch_genes_trace[OF c3] obtain b3 where
        t3: "trace w3 = trace w2 @ [Fetch ?p b3]" and e3: "r3 \<noteq> Inl AssertionError"
        by blast
      have tr3: "trace w3 = trace w @ (Command
            (''aws s3 rm --recursive '' @ output_marker_genes_file P genome_id species_id []) b1
            # evs2 @ [Fetch ?p b3])"
        using t1 t2 t3 by simp
      show ?thesis
      proof (cases r3)
        case (Inl e)
        with run c1 Inr1 c2 Inr2 c3 have "r = Inl e" "w' = w3" by auto
        with Inl e3 tr3 n2 show ?thesis by auto
      next
        case Inr3: (Inr genes)
        define w4 where "w4 = w3\<lparr>files := (files w3)
            (genome_id @ ''.markers.fa'' \<mapsto> [], genome_id @ ''.markers.map'' \<mapsto> [])\<rparr>"
        have tw: "trace w' = trace w3"
          and res: "(\<exists>e. r = Inl e \<and> e \<noteq> AssertionError) \<or>
                    r = Inr [genome_id @ ''.hmmsearch'', genome_id @ ''.markers.fa'',
                             genome_id @ ''.markers.map'']"
        proof -
          show "trace w' = trace w3"
            using run c1 Inr1 c2 Inr2 c3 Inr3 f
            by (auto simp: Let_def split: option.splits prod.splits sum.splits if_splits)
          show "(\<exists>e. r = Inl e \<and> e \<noteq> AssertionError) \<or>
                    r = Inr [genome_id @ ''.hmmsearch'', genome_id @ ''.markers.fa'',
                             genome_id @ ''.markers.map'']"
          proof (cases "parse_hmmsearch env w4 (genome_id @ ''.hmmsearch'')")
            case None
            with run c1 Inr1 c2 Inr2 c3 Inr3 f show ?thesis
              by (auto simp: Let_def w4_def)
          next
            case (Some rows)
            let ?wm = "write_markers genes species_id genome_id
                (find_hits (inputs_hmmsearch_max_evalue P) (inputs_hmmsearch_min_cov P) rows)
                [] []"
            obtain rw o_seq o_map where wm: "?wm = (rw, o_seq, o_map)" by (cases ?wm)
            from write_markers_result[of genes species_id genome_id
                "find_hits (inputs_hmmsearch_max_evalue P) (inputs_hmmsearch_min_cov P) rows"
                "[]" "[]"] wm
            have "rw = Inr () \<or> rw = Inl KeyError" by simp
            with run c1 Inr1 c2 Inr2 c3 Inr3 f Some wm show ?thesis
              by (auto simp: Let_def w4_def lastoutput_def)
          qed
        qed
        from tw tr3 n2 res show ?thesis by auto
      qed
    qed
  qed
qed

lemma output_names_differ:
  "genome_id @ ''.hmmsearch'' \<noteq> lastoutput genome_id \<and>
   genome_id @ ''.markers.fa'' \<noteq> lastoutput genome_id"
  by (simp add: lastoutput_def)

lemma slave_trace:
  assumes run: "build_marker_genes_slave env P args w = (r, w')"
    and gid: "args_genomes args = Some genome_id"
  shows "\<exists>new. trace w' = trace w @ new \<and>
     ((\<forall>d b. Upload (lastoutput genome_id) d b \<notin> set new) \<or>
      (\<exists>pre species_id toc_path toc b.
         args_zzz_slave_toc args = Some toc_path \<and> files w toc_path = Some toc \<and>
         map_of (uhgg_genomes env toc) genome_id = Some species_id \<and>
         new = pre @ [Upload (lastoutput genome_id)
                        (destpath P genome_id species_id (lastoutput genome_id)) b] \<and>
         (\<forall>d b. Upload (lastoutput genome_id) d b \<notin> set pre) \<and>
         Upload (genome_id @ ''.hmmsearch'')
           (destpath P genome_id species_id (genome_id @ ''.hmmsearch'')) True \<in> set pre \<and>
         Upload (genome_id @ ''.markers.fa'')
           (destpath P genome_id species_id (genome_id @ ''.markers.fa'')) True \<in> set pre \<and>
         (r = Inr ()) = b))"
proof -
  have stop: ?thesis if "w' = w"
    using that by (intro exI[of _ "[]"]) simp
  note run' = run[unfolded build_marker_genes_slave_def]
  show ?thesis
  proof (cases "args_zzz_slave_mode args")
    case False
    with run' show ?thesis by (intro stop) simp
  next
    case mode: True
    show ?thesis
    proof (cases "args_zzz_slave_toc args")
      case None
      with run' mode show ?thesis by (intro stop) simp
    next
      case toc_path: (Some toc_path)
      show ?thesis
      proof (cases "files w toc_path")
        case None
        with run' mode toc_path show ?thesis by (intro stop) simp
      next
        case toc: (Some toc)
        show ?thesis
        proof (cases "args_zzz_slave_marker_genes_hmm args")
          case None
          with run' mode toc_path toc show ?thesis by (intro stop) simp
        next
          case hmm: (Some marker_genes_hmm)
          show ?thesis
          proof (cases "files w marker_genes_hmm = None")
            case True
            with run' mode toc_path toc hmm show ?thesis by (intro stop) simp
          next
            case present: False
            show ?thesis
            proof (cases "map_of (uhgg_genomes env toc) genome_id")
              case None
              with run' mode toc_path toc hmm present gid show ?thesis by (intro stop) simp
            next
              case sid: (Some species_id)
              let ?h = "genome_id @ ''.hmmsearch''"
              let ?fa = "genome_id @ ''.markers.fa''"
              let ?m = "genome_id @ ''.markers.map''"
              let ?tasks = "[(?h, destpath P genome_id species_id ?h),
                             (?fa, destpath P genome_id species_id ?fa)]"
              from run' mode toc_path toc hmm present gid sid
              have body: "seq (identify_marker_genes env P genome_id species_id marker_genes_hmm)
                 (\<lambda>output_files.
                    seq (multithreading_map env (upload_star env)
                           (map (\<lambda>out. (out, destpath P genome_id species_id out))
                              (butlast output_files)))
                      (\<lambda>_. upload env True (last output_files)
                              (destpath P genome_id species_id (last output_files))))
                 w = (r, w')"
                by simp
              obtain r1 w1 where c1:
                "identify_marker_genes env P genome_id species_id marker_genes_hmm w = (r1, w1)"
                by (cases "identify_marker_genes env P genome_id species_id marker_genes_hmm w")
              from identify_trace[OF c1] obtain evs1 where
                t1: "trace w1 = trace w @ evs1" and n1: "\<forall>ev \<in> set evs1. \<not> is_upload ev"
                and f1: "\<forall>fs. r1 = Inr fs \<longrightarrow> fs = [?h, ?fa, ?m]"
                by blast
              have no1: "Upload s d b \<notin> set evs1" for s d b
                using n1 by auto
              show ?thesis
              proof (cases r1)
                case (Inl e)
                with body c1 have "w' = w1" by (simp add: seq_def)
                with t1 no1 show ?thesis by (intro exI[of _ evs1]) simp
              next
                case (Inr fs)
                with f1 have fs: "fs = [?h, ?fa, ?m]" by simp
                obtain r2 w2 where c2:
                  "multithreading_map env (upload_star env) ?tasks w1 = (r2, w2)"
                  by (cases "multithreading_map env (upload_star env) ?tasks w1")
                from pool_uploads[OF c2] obtain evs2 where
                  t2: "trace w2 = trace w1 @ evs2"
                  and a2: "\<forall>ev \<in> set evs2. \<exists>s d b. ev = Upload s d b \<and> (s, d) \<in> set ?tasks"
                  and s2: "(\<exists>x. r2 = Inr x) \<longrightarrow>
                      (\<forall>s d. (s, d) \<in> set ?tasks \<longrightarrow> Upload s d True \<in> set evs2)"
                  by blast
                have no2: "Upload (lastoutput genome_id) d b \<notin> set evs2" for d b
                proof
                  assume "Upload (lastoutput genome_id) d b \<in> set evs2"
                  with a2 have "(lastoutput genome_id, d) \<in> set ?tasks" by fastforce
                  with output_names_differ[of genome_id] show False by auto
                qed
                show ?thesis
                proof (cases r2)
                  case (Inl e)
                  with body c1 Inr fs c2 have "w' = w2" by (simp add: seq_def)
                  with t1 t2 no1 no2 show ?thesis by (intro exI[of _ "evs1 @ evs2"]) simp
                next
                  case ok: (Inr x)
                  let ?d = "destpath P genome_id species_id ?m"
                  obtain r3 w3 where c3: "upload env True ?m ?d w2 = (r3, w3)"
                    by (cases "upload env True ?m ?d w2")
                  from upload_trace[OF c3] obtain b where
                    t3: "trace w3 = trace w2 @ [Upload ?m ?d b]" and e3: "(r3 = Inr ()) = b"
                    by auto
                  from body c1 Inr fs c2 ok c3 have res: "r = r3" "w' = w3"
                    by (simp_all add: seq_def)
                  from s2 ok have up: "Upload ?h (destpath P genome_id species_id ?h) True \<in> set evs2"
                    "Upload ?fa (destpath P genome_id species_id ?fa) True \<in> set evs2"
                    by simp_all
                  have tr: "trace w' = trace w @ ((evs1 @ evs2) @
                      [Upload (lastoutput genome_id)
                         (destpath P genome_id species_id (lastoutput genome_id)) b])"
                    using t1 t2 t3 res by (simp add: lastoutput_def)
                  show ?thesis
                    apply (rule exI[of _ "(evs1 @ evs2) @
                      [Upload (lastoutput genome_id)
                         (destpath P genome_id species_id (lastoutput genome_id)) b]"])
                    apply (rule conjI[OF tr])
                    apply (rule disjI2)
                    apply (rule exI[of _ "evs1 @ evs2"], rule exI[of _ species_id],
                        rule exI[of _ toc_path], rule exI[of _ toc], rule exI[of _ b])
                    using toc_path toc sid no1 no2 up res e3 apply simp
                    done
                qed
              qed
            qed
          qed
        qed
      qed
    qed
  qed
qed

subsection \<open>The completion marker\<close>

lemma genome_work_trace:
  assumes "genome_work env P args species_for_genome local_toc marker_genes_hmm genome_id w = (r, w')"
    and "map_of species_for_genome genome_id = Some species_id"
  shows "\<exists>evs. trace w' = trace w @
            FindFiles (destpath P genome_id species_id (lastoutput genome_id))
              (files w (destpath P genome_id species_id (lastoutput genome_id)) \<noteq> None) # evs \<and>
          (\<forall>ev \<in> set evs. \<not> is_find ev)"
  using assms
  by (auto simp: genome_work_def seq_def Let_def find_files_with_retry_def find_files_def
        tsprint_def command_def upload_def sh_rm_rf_def sh_mkdir_def run_child_def
      split: option.splits prod.splits if_splits)

text \<open>
  Claim C1. In every run of the worker, however the outside behaves and in whatever
  order the pool runs its tasks: when the map file of the genome (the completion
  marker) is uploaded, that upload is the last call of the run, it goes to the marker's
  destination, no other upload of the map file came before, and the uploads of the
  search report and of the \<^verbatim>\<open>markers.fa\<close> file to their destinations both came before
  and succeeded. \<^verbatim>\<open>identify_marker_genes\<close>, when it returns, returns the three output
  names with the map file last, so its assertion that the last name is
  \<^verbatim>\<open>lastoutput(genome_id)\<close> holds and never raises.
\<close>

theorem marker_uploaded_last:
  assumes run: "build_marker_genes_slave env P args w = (r, w')"
    and new: "trace w' = trace w @ new"
    and gid: "args_genomes args = Some genome_id"
    and up: "Upload (lastoutput genome_id) d b \<in> set new"
  shows "(\<exists>pre species_id.
            new = pre @ [Upload (lastoutput genome_id) d b] \<and>
            d = destpath P genome_id species_id (lastoutput genome_id) \<and>
            (\<forall>d' b'. Upload (lastoutput genome_id) d' b' \<notin> set pre) \<and>
            Upload (genome_id @ ''.hmmsearch'')
              (destpath P genome_id species_id (genome_id @ ''.hmmsearch'')) True \<in> set pre \<and>
            Upload (genome_id @ ''.markers.fa'')
              (destpath P genome_id species_id (genome_id @ ''.markers.fa'')) True \<in> set pre) \<and>
         (\<forall>species_id marker_genes_hmm w0 fs w1.
            identify_marker_genes env P genome_id species_id marker_genes_hmm w0 = (Inr fs, w1) \<longrightarrow>
              fs = [genome_id @ ''.hmmsearch'', genome_id @ ''.markers.fa'', lastoutput genome_id] \<and>
              last fs = lastoutput genome_id) \<and>
         (\<forall>species_id marker_genes_hmm w0.
            fst (identify_marker_genes env P genome_id species_id marker_genes_hmm w0) \<noteq>
              Inl AssertionError)"
proof (intro conjI allI impI)
  from slave_trace[OF run gid] obtain new' where
    t: "trace w' = trace w @ new'" and
    c: "(\<forall>d b. Upload (lastoutput genome_id) d b \<notin> set new') \<or>
      (\<exists>pre species_id toc_path toc b.
         args_zzz_slave_toc args = Some toc_path \<and> files w toc_path = Some toc \<and>
         map_of (uhgg_genomes env toc) genome_id = Some species_id \<and>
         new' = pre @ [Upload (lastoutput genome_id)
                        (destpath P genome_id species_id (lastoutput genome_id)) b] \<and>
         (\<forall>d b. Upload (lastoutput genome_id) d b \<notin> set pre) \<and>
         Upload (genome_id @ ''.hmmsearch'')
           (destpath P genome_id species_id (genome_id @ ''.hmmsearch'')) True \<in> set pre \<and>
         Upload (genome_id @ ''.markers.fa'')
           (destpath P genome_id species_id (genome_id @ ''.markers.fa'')) True \<in> set pre \<and>
         (r = Inr ()) = b)"
    by blast
  from t new have eq: "new' = new" by simp
  with c up obtain pre species_id b' where
    n: "new = pre @ [Upload (lastoutput genome_id)
                        (destpath P genome_id species_id (lastoutput genome_id)) b']"
    and p: "\<forall>d b. Upload (lastoutput genome_id) d b \<notin> set pre"
    and h: "Upload (genome_id @ ''.hmmsearch'')
           (destpath P genome_id species_id (genome_id @ ''.hmmsearch'')) True \<in> set pre"
    and f: "Upload (genome_id @ ''.markers.fa'')
           (destpath P genome_id species_id (genome_id @ ''.markers.fa'')) True \<in> set pre"
    by blast
  from up n p have "Upload (lastoutput genome_id) d b =
      Upload (lastoutput genome_id) (destpath P genome_id species_id (lastoutput genome_id)) b'"
    by auto
  then have d: "d = destpath P genome_id species_id (lastoutput genome_id)" and b: "b = b'"
    by simp_all
  show "\<exists>pre species_id.
            new = pre @ [Upload (lastoutput genome_id) d b] \<and>
            d = destpath P genome_id species_id (lastoutput genome_id) \<and>
            (\<forall>d' b'. Upload (lastoutput genome_id) d' b' \<notin> set pre) \<and>
            Upload (genome_id @ ''.hmmsearch'')
              (destpath P genome_id species_id (genome_id @ ''.hmmsearch'')) True \<in> set pre \<and>
            Upload (genome_id @ ''.markers.fa'')
              (destpath P genome_id species_id (genome_id @ ''.markers.fa'')) True \<in> set pre"
    by (rule exI[of _ pre], rule exI[of _ species_id]) (use n p h f d b in simp)
next
  fix species_id marker_genes_hmm w0 fs w1
  assume "identify_marker_genes env P genome_id species_id marker_genes_hmm w0 = (Inr fs, w1)"
  from identify_trace[OF this]
  have "fs = [genome_id @ ''.hmmsearch'', genome_id @ ''.markers.fa'', genome_id @ ''.markers.map'']"
    by blast
  then show "fs = [genome_id @ ''.hmmsearch'', genome_id @ ''.markers.fa'', lastoutput genome_id]"
    and "last fs = lastoutput genome_id"
    by (simp_all add: lastoutput_def)
next
  fix species_id marker_genes_hmm w0
  obtain r1 w1 where c: "identify_marker_genes env P genome_id species_id marker_genes_hmm w0 = (r1, w1)"
    by (cases "identify_marker_genes env P genome_id species_id marker_genes_hmm w0")
  from identify_trace[OF c] have "r1 \<noteq> Inl AssertionError" by blast
  with c show "fst (identify_marker_genes env P genome_id species_id marker_genes_hmm w0) \<noteq>
              Inl AssertionError"
    by simp
qed

text \<open>
  Claim C9. For every genome id and species id, the remote path \<^verbatim>\<open>destpath(genome_id,
  species_id, lastoutput(genome_id))\<close> is the marker-genes location of the species and
  genome joined with the genome id, \<^verbatim>\<open>.markers.map\<close> and \<^verbatim>\<open>.lz4\<close>. It is the one path
  whose existence \<^verbatim>\<open>genome_work\<close> asks for, as its first call, and it is the destination
  of the worker's upload of its map file, the last call of the worker, when the worker's
  catalog gives the genome the same species.
\<close>

theorem completion_marker_path_agrees:
  "destpath P genome_id species_id (lastoutput genome_id) =
     outputs_marker_genes P @ ''/temp/'' @ species_id @ ''/'' @ genome_id @ ''/'' @
     genome_id @ ''.markers.map'' @ ''.lz4'' \<and>
   (\<forall>env args species_for_genome local_toc marker_genes_hmm w r w'.
      genome_work env P args species_for_genome local_toc marker_genes_hmm genome_id w = (r, w') \<and>
      map_of species_for_genome genome_id = Some species_id \<longrightarrow>
        (\<exists>evs. trace w' = trace w @
                  FindFiles (destpath P genome_id species_id (lastoutput genome_id))
                    (files w (destpath P genome_id species_id (lastoutput genome_id)) \<noteq> None) #
                  evs \<and>
               (\<forall>p b. FindFiles p b \<notin> set evs))) \<and>
   (\<forall>env args w r w' new toc_path toc d b.
      build_marker_genes_slave env P args w = (r, w') \<and> trace w' = trace w @ new \<and>
      args_genomes args = Some genome_id \<and> args_zzz_slave_toc args = Some toc_path \<and>
      files w toc_path = Some toc \<and> map_of (uhgg_genomes env toc) genome_id = Some species_id \<and>
      Upload (lastoutput genome_id) d b \<in> set new \<longrightarrow>
        d = destpath P genome_id species_id (lastoutput genome_id) \<and>
        last new = Upload (lastoutput genome_id) d b)"
proof (intro conjI allI impI)
  show "destpath P genome_id species_id (lastoutput genome_id) =
     outputs_marker_genes P @ ''/temp/'' @ species_id @ ''/'' @ genome_id @ ''/'' @
     genome_id @ ''.markers.map'' @ ''.lz4''"
    by (simp add: destpath_def output_marker_genes_file_def lastoutput_def)
next
  fix env args species_for_genome local_toc marker_genes_hmm w r w'
  assume a: "genome_work env P args species_for_genome local_toc marker_genes_hmm genome_id w =
      (r, w') \<and> map_of species_for_genome genome_id = Some species_id"
  then obtain evs where
    e: "trace w' = trace w @
            FindFiles (destpath P genome_id species_id (lastoutput genome_id))
              (files w (destpath P genome_id species_id (lastoutput genome_id)) \<noteq> None) # evs"
       "\<forall>ev \<in> set evs. \<not> is_find ev"
    using genome_work_trace[of env P args species_for_genome local_toc marker_genes_hmm
        genome_id w r w' species_id]
    by blast
  from e(2) have "\<forall>p b. FindFiles p b \<notin> set evs" by auto
  with e(1) show "\<exists>evs. trace w' = trace w @
                  FindFiles (destpath P genome_id species_id (lastoutput genome_id))
                    (files w (destpath P genome_id species_id (lastoutput genome_id)) \<noteq> None) #
                  evs \<and>
               (\<forall>p b. FindFiles p b \<notin> set evs)"
    by blast
next
  fix env args w r w' new toc_path toc d b
  assume a: "build_marker_genes_slave env P args w = (r, w') \<and> trace w' = trace w @ new \<and>
      args_genomes args = Some genome_id \<and> args_zzz_slave_toc args = Some toc_path \<and>
      files w toc_path = Some toc \<and> map_of (uhgg_genomes env toc) genome_id = Some species_id \<and>
      Upload (lastoutput genome_id) d b \<in> set new"
  then have run: "build_marker_genes_slave env P args w = (r, w')"
    and gid: "args_genomes args = Some genome_id" by simp_all
  from slave_trace[OF run gid] a obtain pre sid b' where
    n: "new = pre @ [Upload (lastoutput genome_id)
                        (destpath P genome_id sid (lastoutput genome_id)) b']"
    and p: "\<forall>d b. Upload (lastoutput genome_id) d b \<notin> set pre"
    and s: "map_of (uhgg_genomes env toc) genome_id = Some sid"
    by auto
  from a s have sid: "sid = species_id" by simp
  from a n p have "Upload (lastoutput genome_id) d b =
      Upload (lastoutput genome_id) (destpath P genome_id sid (lastoutput genome_id)) b'"
    by auto
  with n sid show "d = destpath P genome_id species_id (lastoutput genome_id)"
    and "last new = Upload (lastoutput genome_id) d b"
    by simp_all
qed

subsection \<open>Witnesses for the completion marker\<close>

lemma demo_identify:
  "fst (identify_marker_genes demo_env demo_params ''G1'' ''s1'' ''hmm'' demo_store) =
     Inr [''G1.hmmsearch'', ''G1.markers.fa'', ''G1.markers.map''] \<and>
   trace (snd (identify_marker_genes demo_env demo_params ''G1'' ''s1'' ''hmm'' demo_store)) =
     [Command ''aws s3 rm --recursive s3://igg/mg/temp/s1/G1/'' True,
      Download ''s3://igg/annot/s1/G1/G1.faa.lz4'' True,
      FindFiles ''G1.hmmsearch'' False,
      Command (hmmsearch_cmd 1 ''G1.hmmsearch'' ''hmm'' ''G1.faa.lz4'') True,
      Fetch ''s3://igg/annot/s1/G1/G1.ffn.lz4'' True]"
  by (simp add: identify_marker_genes_def seq_def command_def aws_s3_rm_def hmmsearch_cases
      fetch_genes_def parse_hmmsearch_def find_hits_def find_hits_step_def py_min_def
      demo_env_def demo_params_def demo_store_def input_annotations_file_def
      output_marker_genes_file_def lastoutput_def gene_seqs_def Let_def)

lemma demo_worker_run:
  "fst (build_marker_genes_slave demo_env demo_params demo_worker_args demo_store) = Inr () \<and>
   trace (snd (build_marker_genes_slave demo_env demo_params demo_worker_args demo_store)) =
     [Command ''aws s3 rm --recursive s3://igg/mg/temp/s1/G1/'' True,
      Download ''s3://igg/annot/s1/G1/G1.faa.lz4'' True,
      FindFiles ''G1.hmmsearch'' False,
      Command (hmmsearch_cmd 1 ''G1.hmmsearch'' ''hmm'' ''G1.faa.lz4'') True,
      Fetch ''s3://igg/annot/s1/G1/G1.ffn.lz4'' True,
      Upload ''G1.hmmsearch'' ''s3://igg/mg/temp/s1/G1/G1.hmmsearch.lz4'' True,
      Upload ''G1.markers.fa'' ''s3://igg/mg/temp/s1/G1/G1.markers.fa.lz4'' True,
      Upload ''G1.markers.map'' ''s3://igg/mg/temp/s1/G1/G1.markers.map.lz4'' True]"
  by (simp add: build_marker_genes_slave_def multithreading_map_def upload_star_def upload_def
      destpath_def
      identify_marker_genes_def seq_def command_def aws_s3_rm_def hmmsearch_cases
      fetch_genes_def parse_hmmsearch_def find_hits_def find_hits_step_def py_min_def
      demo_env_def demo_params_def demo_store_def demo_worker_args_def input_annotations_file_def
      output_marker_genes_file_def lastoutput_def gene_seqs_def Let_def enumerate_eq_zip)

theorem marker_uploaded_last_witness:
  "(\<exists>pre.
      trace (snd (build_marker_genes_slave demo_env demo_params demo_worker_args demo_store)) =
        pre @ [Upload ''G1.markers.map'' ''s3://igg/mg/temp/s1/G1/G1.markers.map.lz4'' True] \<and>
      Upload ''G1.hmmsearch'' ''s3://igg/mg/temp/s1/G1/G1.hmmsearch.lz4'' True \<in> set pre \<and>
      Upload ''G1.markers.fa'' ''s3://igg/mg/temp/s1/G1/G1.markers.fa.lz4'' True \<in> set pre) \<and>
   last (projr (fst (identify_marker_genes demo_env demo_params ''G1'' ''s1'' ''hmm'' demo_store))) =
     ''G1.markers.map''"
proof -
  let ?X = "build_marker_genes_slave demo_env demo_params demo_worker_args demo_store"
  let ?I = "identify_marker_genes demo_env demo_params ''G1'' ''s1'' ''hmm'' demo_store"
  let ?d = "''s3://igg/mg/temp/s1/G1/G1.markers.map.lz4''"
  have run: "?X = (fst ?X, snd ?X)" by simp
  have new: "trace (snd ?X) = trace demo_store @ trace (snd ?X)" by (simp add: demo_store_def)
  have gid: "args_genomes demo_worker_args = Some ''G1''" by (simp add: demo_worker_args_def)
  have up: "Upload (lastoutput ''G1'') ?d True \<in> set (trace (snd ?X))"
    using demo_worker_run by (simp add: lastoutput_def)
  have dest: "destpath demo_params ''G1'' sid out = ''s3://igg/mg/temp/'' @ sid @ ''/G1/'' @ out @ ''.lz4''"
    for sid out
    by (simp add: destpath_def output_marker_genes_file_def demo_params_def)
  note T = marker_uploaded_last[OF run new gid up]
  from T[THEN conjunct1] obtain pre species_id where
    a: "trace (snd ?X) = pre @ [Upload (lastoutput ''G1'') ?d True]"
    and b: "?d = destpath demo_params ''G1'' species_id (lastoutput ''G1'')"
    and c: "Upload (''G1'' @ ''.hmmsearch'')
              (destpath demo_params ''G1'' species_id (''G1'' @ ''.hmmsearch'')) True \<in> set pre"
    and d: "Upload (''G1'' @ ''.markers.fa'')
              (destpath demo_params ''G1'' species_id (''G1'' @ ''.markers.fa'')) True \<in> set pre"
    by blast
  from b have sid: "species_id = ''s1''" by (simp add: dest lastoutput_def)
  have one: "\<exists>pre. trace (snd ?X) = pre @ [Upload ''G1.markers.map'' ?d True] \<and>
      Upload ''G1.hmmsearch'' ''s3://igg/mg/temp/s1/G1/G1.hmmsearch.lz4'' True \<in> set pre \<and>
      Upload ''G1.markers.fa'' ''s3://igg/mg/temp/s1/G1/G1.markers.fa.lz4'' True \<in> set pre"
    by (rule exI[of _ pre]) (use a c d sid in \<open>simp add: dest lastoutput_def\<close>)
  have i: "?I = (Inr [''G1.hmmsearch'', ''G1.markers.fa'', ''G1.markers.map''], snd ?I)"
    using demo_identify by (simp add: prod_eq_iff)
  from T[THEN conjunct2, THEN conjunct1, rule_format, OF i]
  have "last [''G1.hmmsearch'', ''G1.markers.fa'', ''G1.markers.map''] = lastoutput ''G1''"
    by simp
  then have two: "last (projr (fst ?I)) = ''G1.markers.map''"
    using demo_identify by (simp add: lastoutput_def)
  from one two show ?thesis by blast
qed

theorem completion_marker_path_agrees_witness:
  "destpath demo_params ''G1'' ''s1'' (lastoutput ''G1'') =
     ''s3://igg/mg/temp/s1/G1/G1.markers.map.lz4'' \<and>
   (\<exists>evs. trace (snd (genome_work demo_env demo_params (demo_args ''G1'')
                        [(''G1'', ''s1''), (''G2'', ''s1'')] ''genomes.tsv'' ''phyeco.hmm'' ''G1''
                        demo_store)) =
            FindFiles ''s3://igg/mg/temp/s1/G1/G1.markers.map.lz4'' False # evs \<and>
          (\<forall>p b. FindFiles p b \<notin> set evs)) \<and>
   last (trace (snd (build_marker_genes_slave demo_env demo_params demo_worker_args demo_store))) =
     Upload ''G1.markers.map'' ''s3://igg/mg/temp/s1/G1/G1.markers.map.lz4'' True"
proof -
  let ?X = "build_marker_genes_slave demo_env demo_params demo_worker_args demo_store"
  let ?G = "genome_work demo_env demo_params (demo_args ''G1'')
      [(''G1'', ''s1''), (''G2'', ''s1'')] ''genomes.tsv'' ''phyeco.hmm'' ''G1'' demo_store"
  let ?d = "''s3://igg/mg/temp/s1/G1/G1.markers.map.lz4''"
  note T = completion_marker_path_agrees[of demo_params "''G1''" "''s1''"]
  from T have p: "destpath demo_params ''G1'' ''s1'' (lastoutput ''G1'') = ?d"
    by (simp add: demo_params_def)
  have g: "?G = (fst ?G, snd ?G) \<and> map_of [(''G1'', ''s1''), (''G2'', ''s1'')] ''G1'' = Some ''s1''"
    by simp
  have absent: "files demo_store ?d = None" by (simp add: demo_store_def)
  from T[THEN conjunct2, THEN conjunct1, rule_format, OF g] obtain evs where
    "trace (snd ?G) = trace demo_store @
       FindFiles (destpath demo_params ''G1'' ''s1'' (lastoutput ''G1''))
         (files demo_store (destpath demo_params ''G1'' ''s1'' (lastoutput ''G1'')) \<noteq> None) # evs"
    "\<forall>p b. FindFiles p b \<notin> set evs"
    by blast
  then have master: "\<exists>evs. trace (snd ?G) = FindFiles ?d False # evs \<and>
      (\<forall>p b. FindFiles p b \<notin> set evs)"
    by (simp add: p absent demo_store_def)
  have s: "?X = (fst ?X, snd ?X) \<and> trace (snd ?X) = trace demo_store @ trace (snd ?X) \<and>
      args_genomes demo_worker_args = Some ''G1'' \<and>
      args_zzz_slave_toc demo_worker_args = Some ''toc'' \<and>
      files demo_store ''toc'' = Some ''TOC'' \<and>
      map_of (uhgg_genomes demo_env ''TOC'') ''G1'' = Some ''s1'' \<and>
      Upload (lastoutput ''G1'') ?d True \<in> set (trace (snd ?X))"
  proof (intro conjI)
    show "?X = (fst ?X, snd ?X)" by simp
    show "trace (snd ?X) = trace demo_store @ trace (snd ?X)" by (simp add: demo_store_def)
    show "args_genomes demo_worker_args = Some ''G1''" by (simp add: demo_worker_args_def)
    show "args_zzz_slave_toc demo_worker_args = Some ''toc''" by (simp add: demo_worker_args_def)
    show "files demo_store ''toc'' = Some ''TOC''" by (simp add: demo_store_def)
    show "map_of (uhgg_genomes demo_env ''TOC'') ''G1'' = Some ''s1''" by (simp add: demo_env_def)
    show "Upload (lastoutput ''G1'') ?d True \<in> set (trace (snd ?X))"
      using demo_worker_run by (simp add: lastoutput_def)
  qed
  from T[THEN conjunct2, THEN conjunct2, rule_format, OF s]
  have "last (trace (snd ?X)) = Upload (lastoutput ''G1'') ?d True"
    by simp
  then have worker: "last (trace (snd ?X)) = Upload ''G1.markers.map'' ?d True"
    by (simp add: lastoutput_def)
  from p master worker show ?thesis by blast
qed

subsection \<open>Resolution precedes dispatch\<close>

lemma decode_token_malformed:
  assumes "CHR '':'' \<in> set g" "\<not> well_formed_slice g"
  shows "decode_token genomes sel g = Inl ValueError \<or> decode_token genomes sel g = Inl AssertionError"
  using assms
  by (auto simp: decode_token_def well_formed_slice_def split: list.splits option.splits)

lemma decode_token_failure:
  assumes "decode_token genomes sel t = Inl e"
  shows "CHR '':'' \<in> set t \<and>
         (\<not> well_formed_slice t \<or> (\<exists>gid \<in> set genomes. gid_int gid = None)) \<and>
         (e = ValueError \<or> e = AssertionError)"
  using assms
  by (auto simp: decode_token_def well_formed_slice_def slice_loop_eq
      split: list.splits option.splits if_splits)

lemma decode_tokens_malformed:
  assumes "g \<in> set toks" "CHR '':'' \<in> set g" "\<not> well_formed_slice g"
  shows "\<exists>e t. t \<in> set toks \<and> CHR '':'' \<in> set t \<and>
           (\<not> well_formed_slice t \<or> (\<exists>gid \<in> set genomes. gid_int gid = None)) \<and>
           (e = ValueError \<or> e = AssertionError) \<and>
           decode_tokens genomes sel toks = Inl (e, t)"
  using assms(1)
proof (induction toks arbitrary: sel)
  case Nil
  then show ?case by simp
next
  case (Cons t toks)
  show ?case
  proof (cases "decode_token genomes sel t")
    case (Inl e)
    from decode_token_failure[OF Inl] Inl show ?thesis by auto
  next
    case (Inr sel')
    with decode_token_malformed[OF assms(2,3), of genomes sel] have "t \<noteq> g" by auto
    with Cons.prems have "g \<in> set toks" by simp
    from Cons.IH[OF this, of sel'] Inr show ?thesis by auto
  qed
qed

lemma decode_tokens_literals:
  assumes "\<forall>t \<in> set toks. CHR '':'' \<notin> set t"
  shows "decode_tokens genomes sel toks = Inr (sel \<union> set toks)"
  using assms by (induction toks arbitrary: sel) (auto simp: decode_token_literal)

lemma download_trace:
  assumes "download_reference env p w = (r, w')"
  shows "\<exists>b. trace w' = trace w @ [Download p b]"
  using assms by (auto simp: download_reference_def split: option.splits if_splits)

lemma run_tasks_downloads:
  assumes "run_tasks (download_reference env) L w = (rs, w')"
  shows "\<exists>evs. trace w' = trace w @ evs \<and> (\<forall>ev \<in> set evs. \<exists>p b. ev = Download p b)"
  using assms
proof (induction L arbitrary: w rs w')
  case Nil
  then show ?case by simp
next
  case (Cons t L)
  obtain k p where t: "t = (k, p)" by (cases t)
  obtain r w1 where d: "download_reference env p w = (r, w1)"
    by (cases "download_reference env p w")
  obtain rs1 w2 where rest: "run_tasks (download_reference env) L w1 = (rs1, w2)"
    by (cases "run_tasks (download_reference env) L w1")
  from Cons.prems t d rest have w': "w' = w2" by simp
  from download_trace[OF d] obtain b where b: "trace w1 = trace w @ [Download p b]" by blast
  from Cons.IH[OF rest] obtain evs where
    e: "trace w2 = trace w1 @ evs" "\<forall>ev \<in> set evs. \<exists>p b. ev = Download p b"
    by blast
  have "trace w' = trace w @ (Download p b # evs)" using b e(1) w' by simp
  moreover have "\<forall>ev \<in> set (Download p b # evs). \<exists>p b. ev = Download p b"
    using e(2) by simp
  ultimately show ?case by blast
qed

lemma pool_downloads:
  assumes "multithreading_map env (download_reference env) items w = (r, w')"
  shows "\<exists>evs. trace w' = trace w @ evs \<and> (\<forall>ev \<in> set evs. \<exists>p b. ev = Download p b)"
proof -
  let ?L = "arrange (sched env) (enumerate 0 items)"
  obtain rs w1 where run: "run_tasks (download_reference env) ?L w = (rs, w1)"
    by (cases "run_tasks (download_reference env) ?L w")
  with assms have "w' = w1"
    by (auto simp: multithreading_map_def split: list.splits)
  with run_tasks_downloads[OF run] show ?thesis by simp
qed

lemma master_stops_at_resolution:
  assumes "\<And>genomes w. \<exists>e t. decode_genomes_arg args genomes w = (Inl e, tsprint t w)"
  shows "\<exists>e w' new. build_marker_genes_master env P args w = (Inl e, w') \<and>
           trace w' = trace w @ new \<and>
           (\<forall>ev \<in> set new. (\<exists>p b. ev = Download p b) \<or> (\<exists>m. ev = Tsprint m))"
proof -
  let ?pool = "multithreading_map env (download_reference env)
      [outputs_genomes P, inputs_marker_genes_hmm P]"
  obtain r1 w1 where c1: "?pool w = (r1, w1)" by (cases "?pool w")
  from pool_downloads[OF c1] obtain evs where
    t1: "trace w1 = trace w @ evs" and d1: "\<forall>ev \<in> set evs. \<exists>p b. ev = Download p b"
    by blast
  have stop: ?thesis if "build_marker_genes_master env P args w = (Inl e, w1)" for e
    using that t1 d1 by (intro exI[of _ e] exI[of _ w1] exI[of _ evs]) auto
  show ?thesis
  proof (cases r1)
    case (Inl e)
    with c1 show ?thesis by (intro stop[of e]) (simp add: build_marker_genes_master_def seq_def)
  next
    case (Inr res)
    show ?thesis
    proof (cases "\<exists>local_toc marker_genes_hmm. res = [local_toc, marker_genes_hmm]")
      case False
      with c1 Inr show ?thesis
        by (intro stop[of ValueError])
           (auto simp: build_marker_genes_master_def seq_def split: list.splits)
    next
      case True
      then obtain local_toc marker_genes_hmm where res: "res = [local_toc, marker_genes_hmm]"
        by blast
      show ?thesis
      proof (cases "files w1 local_toc")
        case None
        with c1 Inr res show ?thesis
          by (intro stop[of IOError]) (simp add: build_marker_genes_master_def seq_def)
      next
        case (Some toc)
        from assms[of "map fst (uhgg_genomes env toc)" w1] obtain e t where
          dec: "decode_genomes_arg args (map fst (uhgg_genomes env toc)) w1 = (Inl e, tsprint t w1)"
          by blast
        with c1 Inr res Some
        have m: "build_marker_genes_master env P args w = (Inl e, tsprint t w1)"
          by (simp add: build_marker_genes_master_def seq_def Let_def)
        have "trace (tsprint t w1) = trace w @ (evs @ [Tsprint t])"
          using t1 by (simp add: tsprint_def)
        moreover have "\<forall>ev \<in> set (evs @ [Tsprint t]). (\<exists>p b. ev = Download p b) \<or> (\<exists>m. ev = Tsprint m)"
          using d1 by auto
        ultimately show ?thesis using m by blast
      qed
    qed
  qed
qed

text \<open>
  Claim C2, as amended. For every selection expression with a token that holds a colon
  and is not a well-formed slice (more or fewer than two parts, a part that is no
  integer, \<open>i < 0\<close> or \<open>i \<ge> n\<close>): \<^verbatim>\<open>decode_genomes_arg\<close> raises (\<^verbatim>\<open>ValueError\<close> or
  \<^verbatim>\<open>AssertionError\<close>, raised again by the handler) after printing the token at which
  the loop stopped, a token with a colon that is malformed or met a catalog id without
  integer; and the master ends with an exception having made no call but its downloads
  and that note: no look-up, no command, no upload, so no item is dispatched. A token
  without a colon is taken as a genome id without consulting the catalog: an expression
  of such tokens only (other than \<^verbatim>\<open>all\<close>) resolves to the sorted set of its tokens.
  An id that the catalog does not hold is rejected by the assertion of \<^verbatim>\<open>genome_work\<close>
  when its own item is started, without any call.
\<close>

theorem malformed_slice_fails_before_dispatch:
  assumes "args_genomes args = Some expr" and "g \<in> set (split (CHR '','') expr)"
    and "CHR '':'' \<in> set g" and "\<not> well_formed_slice g"
  shows "(\<exists>e t. t \<in> set (split (CHR '','') expr) \<and> CHR '':'' \<in> set t \<and>
            (\<not> well_formed_slice t \<or> (\<exists>gid \<in> set genomes. gid_int gid = None)) \<and>
            (e = ValueError \<or> e = AssertionError) \<and>
            decode_genomes_arg args genomes w =
              (Inl e,
               tsprint (''ERROR:  Genomes argument is not a list of genome ids or slices: '' @ t)
                 w)) \<and>
         (\<exists>e w' new. build_marker_genes_master env P args w = (Inl e, w') \<and>
            trace w' = trace w @ new \<and>
            (\<forall>ev \<in> set new. (\<exists>p b. ev = Download p b) \<or> (\<exists>m. ev = Tsprint m))) \<and>
         (\<forall>args' expr'.
            args_genomes args' = Some expr' \<and> upper expr' \<noteq> ''ALL'' \<and>
            (\<forall>t \<in> set (split (CHR '','') expr'). CHR '':'' \<notin> set t) \<longrightarrow>
              decode_genomes_arg args' genomes w =
                (Inr (sorted_list_of_set (set (split (CHR '','') expr'))), w)) \<and>
         (\<forall>genome_id species_for_genome local_toc marker_genes_hmm.
            map_of species_for_genome genome_id = None \<longrightarrow>
              genome_work env P args species_for_genome local_toc marker_genes_hmm genome_id w =
                (Inl AssertionError, w))"
proof -
  have colon: "CHR '':'' \<in> set expr"
    using split_subset[OF assms(2)] assms(3) by auto
  have res: "\<exists>e t. t \<in> set (split (CHR '','') expr) \<and> CHR '':'' \<in> set t \<and>
            (\<not> well_formed_slice t \<or> (\<exists>gid \<in> set gs. gid_int gid = None)) \<and>
            (e = ValueError \<or> e = AssertionError) \<and>
            decode_genomes_arg args gs v =
              (Inl e,
               tsprint (''ERROR:  Genomes argument is not a list of genome ids or slices: '' @ t)
                 v)" for gs v
  proof -
    from decode_tokens_malformed[OF assms(2,3,4), of gs "{}"] obtain e t where
      a: "t \<in> set (split (CHR '','') expr)" "CHR '':'' \<in> set t"
         "\<not> well_formed_slice t \<or> (\<exists>gid \<in> set gs. gid_int gid = None)"
         "e = ValueError \<or> e = AssertionError"
         "decode_tokens gs {} (split (CHR '','') expr) = Inl (e, t)"
      by blast
    from a(5) assms(1) have "decode_genomes_arg args gs v =
        (Inl e,
         tsprint (''ERROR:  Genomes argument is not a list of genome ids or slices: '' @ t) v)"
      by (simp add: decode_genomes_arg_def select_genomes_tokens[OF colon])
    with a(1-4) show ?thesis by blast
  qed
  have master: "\<exists>e w' new. build_marker_genes_master env P args w = (Inl e, w') \<and>
            trace w' = trace w @ new \<and>
            (\<forall>ev \<in> set new. (\<exists>p b. ev = Download p b) \<or> (\<exists>m. ev = Tsprint m))"
  proof (rule master_stops_at_resolution)
    fix gs v
    from res[of gs v] show "\<exists>e t. decode_genomes_arg args gs v = (Inl e, tsprint t v)"
      by blast
  qed
  have lit: "decode_genomes_arg args' genomes w =
      (Inr (sorted_list_of_set (set (split (CHR '','') expr'))), w)"
    if "args_genomes args' = Some expr' \<and> upper expr' \<noteq> ''ALL'' \<and>
        (\<forall>t \<in> set (split (CHR '','') expr'). CHR '':'' \<notin> set t)" for args' expr'
    using that decode_tokens_literals[of "split (CHR '','') expr'" genomes "{}"]
    by (simp add: decode_genomes_arg_def select_genomes_def)
  have unknown: "genome_work env P args species_for_genome local_toc marker_genes_hmm genome_id w =
      (Inl AssertionError, w)"
    if "map_of species_for_genome genome_id = None"
    for genome_id species_for_genome local_toc marker_genes_hmm
    using that by (simp add: genome_work_def)
  show ?thesis
  proof (intro conjI)
    show "\<exists>e t. t \<in> set (split (CHR '','') expr) \<and> CHR '':'' \<in> set t \<and>
            (\<not> well_formed_slice t \<or> (\<exists>gid \<in> set genomes. gid_int gid = None)) \<and>
            (e = ValueError \<or> e = AssertionError) \<and>
            decode_genomes_arg args genomes w =
              (Inl e,
               tsprint (''ERROR:  Genomes argument is not a list of genome ids or slices: '' @ t)
                 w)"
      by (rule res)
    show "\<exists>e w' new. build_marker_genes_master env P args w = (Inl e, w') \<and>
            trace w' = trace w @ new \<and>
            (\<forall>ev \<in> set new. (\<exists>p b. ev = Download p b) \<or> (\<exists>m. ev = Tsprint m))"
      by (rule master)
    show "\<forall>args' expr'.
            args_genomes args' = Some expr' \<and> upper expr' \<noteq> ''ALL'' \<and>
            (\<forall>t \<in> set (split (CHR '','') expr'). CHR '':'' \<notin> set t) \<longrightarrow>
              decode_genomes_arg args' genomes w =
                (Inr (sorted_list_of_set (set (split (CHR '','') expr'))), w)"
      using lit by (intro allI impI)
    show "\<forall>genome_id species_for_genome local_toc marker_genes_hmm.
            map_of species_for_genome genome_id = None \<longrightarrow>
              genome_work env P args species_for_genome local_toc marker_genes_hmm genome_id w =
                (Inl AssertionError, w)"
      using unknown by (intro allI impI)
  qed
qed

subsection \<open>Witnesses for resolution\<close>

lemma demo_sorted: "sorted_list_of_set {''G1'', ''ZZZ''} = [''G1'', ''ZZZ'']"
  by code_simp

lemma demo_resolve:
  "decode_genomes_arg (demo_args ''G1,ZZZ'') [''G1'', ''G2''] w = (Inr [''G1'', ''ZZZ''], w)"
proof -
  have "select_genomes ''G1,ZZZ'' [''G1'', ''G2''] = Inr {''G1'', ''ZZZ''}"
    by (simp add: select_genomes_def upper_def char_upper_def decode_token_def insert_commute)
  then show ?thesis
    by (simp add: decode_genomes_arg_def demo_args_def demo_sorted)
qed

lemma demo_master_run:
  "fst (build_marker_genes_master demo_env demo_params (demo_args ''G1,ZZZ'') demo_store) =
     Inl AssertionError \<and>
   trace (snd (build_marker_genes_master demo_env demo_params (demo_args ''G1,ZZZ'') demo_store)) =
     [Download ''s3://igg/genomes.tsv'' True,
      Download ''s3://igg/phyeco.hmm'' True,
      FindFiles ''s3://igg/mg/temp/s1/G1/G1.markers.map.lz4'' False,
      Tsprint ''Running HMMsearch for genome G1 from species s1.'',
      Command ''rm -rf s1__G1'' True,
      Command ''mkdir s1__G1'' True,
      Command (slave_cmd demo_env (demo_args ''G1,ZZZ'') ''s1__G1'' ''build_marker_genes.log''
                 ''genomes.tsv'' ''phyeco.hmm'' ''G1'') True,
      Upload ''s1__G1/build_marker_genes.log''
        ''s3://igg/mg/temp/s1/G1/build_marker_genes.log.lz4'' True,
      Command ''rm -rf s1__G1'' True]"
proof -
  have cat: "uhgg_genomes demo_env c = [(''G1'', ''s1''), (''G2'', ''s1'')]" for c
    by (simp add: demo_env_def)
  have force: "\<not> args_force (demo_args e)" "\<not> args_debug (demo_args e)" for e
    by (simp_all add: demo_args_def)
  have env: "succeeds demo_env k" "sched demo_env k = 0" "child_run demo_env c v = v"
    "local_copy demo_env ''s3://igg/genomes.tsv'' = ''genomes.tsv''"
    "local_copy demo_env ''s3://igg/phyeco.hmm'' = ''phyeco.hmm''" for k c v
    by (simp_all add: demo_env_def)
  have par: "outputs_genomes demo_params = ''s3://igg/genomes.tsv''"
    "inputs_marker_genes_hmm demo_params = ''s3://igg/phyeco.hmm''"
    "outputs_marker_genes demo_params = ''s3://igg/mg''"
    by (simp_all add: demo_params_def)
  show ?thesis
    by (simp add: build_marker_genes_master_def seq_def multithreading_map_def
        download_reference_def demo_resolve cat force env par genome_work_def
        find_files_with_retry_def find_files_def tsprint_def command_def upload_def
        sh_rm_rf_def sh_mkdir_def run_child_def destpath_def output_marker_genes_file_def
        lastoutput_def demo_store_def Let_def enumerate_eq_zip)
qed

text \<open>
  The claim as first worded fails on a literal token that the catalog does not hold:
  \<open>ZZZ\<close> is neither an id of the catalog nor a slice, yet resolution returns it among the
  work items; the run then starts the worker of \<open>G1\<close> and only ends with the assertion of
  the item \<open>ZZZ\<close>.
\<close>

theorem malformed_slice_fails_before_dispatch_counterexample:
  "''ZZZ'' \<notin> set [''G1'', ''G2''] \<and> \<not> well_formed_slice ''ZZZ'' \<and>
   decode_genomes_arg (demo_args ''G1,ZZZ'') [''G1'', ''G2''] demo_store =
     (Inr [''G1'', ''ZZZ''], demo_store) \<and>
   fst (build_marker_genes_master demo_env demo_params (demo_args ''G1,ZZZ'') demo_store) =
     Inl AssertionError \<and>
   Command (slave_cmd demo_env (demo_args ''G1,ZZZ'') ''s1__G1'' ''build_marker_genes.log''
              ''genomes.tsv'' ''phyeco.hmm'' ''G1'') True \<in>
     set (trace (snd (build_marker_genes_master demo_env demo_params (demo_args ''G1,ZZZ'')
                        demo_store)))"
proof -
  have "\<not> well_formed_slice ''ZZZ''" by (simp add: well_formed_slice_def)
  with demo_resolve[of demo_store] demo_master_run show ?thesis by simp
qed

theorem malformed_slice_fails_before_dispatch_witness:
  "(\<exists>e. (e = ValueError \<or> e = AssertionError) \<and>
        decode_genomes_arg (demo_args ''G1,1:0'') [''G1'', ''G2''] demo_store =
          (Inl e,
           tsprint ''ERROR:  Genomes argument is not a list of genome ids or slices: 1:0''
             demo_store)) \<and>
   (\<exists>e w' new.
      build_marker_genes_master demo_env demo_params (demo_args ''G1,1:0'') demo_store =
        (Inl e, w') \<and>
      trace w' = trace demo_store @ new \<and>
      (\<forall>ev \<in> set new. (\<exists>p b. ev = Download p b) \<or> (\<exists>m. ev = Tsprint m))) \<and>
   decode_genomes_arg (demo_args ''G1,ZZZ'') [''G1'', ''G2''] demo_store =
     (Inr (sorted_list_of_set {''G1'', ''ZZZ''}), demo_store) \<and>
   genome_work demo_env demo_params (demo_args ''G1,1:0'') [(''G1'', ''s1''), (''G2'', ''s1'')]
     ''genomes.tsv'' ''phyeco.hmm'' ''ZZZ'' demo_store = (Inl AssertionError, demo_store)"
proof -
  let ?gs = "[''G1'', ''G2'']"
  have a: "args_genomes (demo_args ''G1,1:0'') = Some ''G1,1:0''" by (simp add: demo_args_def)
  have b: "''1:0'' \<in> set (split (CHR '','') ''G1,1:0'')" by simp
  have c: "CHR '':'' \<in> set ''1:0''" by simp
  have d: "\<not> well_formed_slice ''1:0''"
    by (simp add: well_formed_slice_def py_int_def py_literal_def strip_def is_space_def
        digit_of_def)
  note T = malformed_slice_fails_before_dispatch[OF a b c d, of ?gs demo_store demo_env demo_params]
  have ids: "gid_int ''G1'' = None"
    by (simp add: gid_int_def py_int_def py_literal_def strip_def is_space_def digit_of_def)
  from T[THEN conjunct1] obtain e t where
    t: "t \<in> set (split (CHR '','') ''G1,1:0'')" "CHR '':'' \<in> set t"
       "e = ValueError \<or> e = AssertionError"
       "decode_genomes_arg (demo_args ''G1,1:0'') ?gs demo_store =
          (Inl e,
           tsprint (''ERROR:  Genomes argument is not a list of genome ids or slices: '' @ t)
             demo_store)"
    by blast
  from t(1,2) have "t = ''1:0''" by auto
  with t(3,4) have one: "\<exists>e. (e = ValueError \<or> e = AssertionError) \<and>
        decode_genomes_arg (demo_args ''G1,1:0'') ?gs demo_store =
          (Inl e,
           tsprint ''ERROR:  Genomes argument is not a list of genome ids or slices: 1:0''
             demo_store)"
    by auto
  note two = T[THEN conjunct2, THEN conjunct1]
  have l: "args_genomes (demo_args ''G1,ZZZ'') = Some ''G1,ZZZ'' \<and> upper ''G1,ZZZ'' \<noteq> ''ALL'' \<and>
      (\<forall>t \<in> set (split (CHR '','') ''G1,ZZZ''). CHR '':'' \<notin> set t)"
    by (simp add: demo_args_def upper_def)
  from T[THEN conjunct2, THEN conjunct2, THEN conjunct1, rule_format, OF l]
  have three: "decode_genomes_arg (demo_args ''G1,ZZZ'') ?gs demo_store =
     (Inr (sorted_list_of_set {''G1'', ''ZZZ''}), demo_store)"
    by (simp add: insert_commute)
  have u: "map_of [(''G1'', ''s1''), (''G2'', ''s1'')] ''ZZZ'' = None" by simp
  note four = T[THEN conjunct2, THEN conjunct2, THEN conjunct2, rule_format, OF u,
      of "''genomes.tsv''" "''phyeco.hmm''"]
  from one two three four show ?thesis by blast
qed

end
